theory Spec2Isabelle
  imports Main "HOL-Library.Word" "HOL-Library.Sublist"
begin

unbundle bit_operations_syntax

section \<open>Strings of bytes and the functions of Go's \<open>strings\<close> package that the resolver calls\<close>

text \<open>
  A Go string is a sequence of bytes; \<^typ>\<open>string\<close> (a list of 8-bit characters) is the
  same data. The resolver lives in package \<open>common\<close>; the library functions it calls
  (\<open>strings.TrimSpace\<close>, \<open>strings.Split\<close>, \<open>strings.FieldsFunc\<close>, \<open>strings.Contains\<close>,
  \<open>net.SplitHostPort\<close>, \<open>net.ParseIP\<close>, \<open>net.ParseCIDR\<close>, \<open>IP.To4\<close>, \<open>IP.String\<close>,
  \<open>IPNet.Contains\<close>) are modelled after the Go standard library.
\<close>

definition byteval :: "char \<Rightarrow> int" where
  "byteval c = of_char c"

definition is_digit :: "char \<Rightarrow> bool" where
  "is_digit c = (48 \<le> byteval c \<and> byteval c \<le> 57)"

text \<open>
  \<open>unicode.IsSpace\<close>, as the UTF-8 encodings of the runes it accepts: tab, LF, VT, FF, CR,
  space, U+0085, U+00A0, U+1680, U+2000..U+200A, U+2028, U+2029, U+202F, U+205F, U+3000.
\<close>

definition space_encodings :: "string list" where
  "space_encodings =
     [[CHR 0x09], [CHR 0x0A], [CHR 0x0B], [CHR 0x0C], [CHR 0x0D], [CHR 0x20],
      [CHR 0xC2, CHR 0x85], [CHR 0xC2, CHR 0xA0],
      [CHR 0xE1, CHR 0x9A, CHR 0x80],
      [CHR 0xE2, CHR 0x80, CHR 0x80], [CHR 0xE2, CHR 0x80, CHR 0x81],
      [CHR 0xE2, CHR 0x80, CHR 0x82], [CHR 0xE2, CHR 0x80, CHR 0x83],
      [CHR 0xE2, CHR 0x80, CHR 0x84], [CHR 0xE2, CHR 0x80, CHR 0x85],
      [CHR 0xE2, CHR 0x80, CHR 0x86], [CHR 0xE2, CHR 0x80, CHR 0x87],
      [CHR 0xE2, CHR 0x80, CHR 0x88], [CHR 0xE2, CHR 0x80, CHR 0x89],
      [CHR 0xE2, CHR 0x80, CHR 0x8A],
      [CHR 0xE2, CHR 0x80, CHR 0xA8], [CHR 0xE2, CHR 0x80, CHR 0xA9],
      [CHR 0xE2, CHR 0x80, CHR 0xAF], [CHR 0xE2, CHR 0x81, CHR 0x9F],
      [CHR 0xE3, CHR 0x80, CHR 0x80]]"

text \<open>The width in bytes of the white-space rune a string starts (ends) with; 0 if none.\<close>

definition leading_space :: "string \<Rightarrow> nat" where
  "leading_space s = (case List.find (\<lambda>e. prefix e s) space_encodings of
                        None \<Rightarrow> 0 | Some e \<Rightarrow> length e)"

definition trailing_space :: "string \<Rightarrow> nat" where
  "trailing_space s = (case List.find (\<lambda>e. suffix e s) space_encodings of
                         None \<Rightarrow> 0 | Some e \<Rightarrow> length e)"

function TrimLeft :: "string \<Rightarrow> string" where
  "TrimLeft s = (if leading_space s = 0 then s else TrimLeft (drop (leading_space s) s))"
  by pat_completeness auto
termination
proof (relation "measure length")
  fix s :: string
  assume "leading_space s \<noteq> 0"
  then have "s \<noteq> []"
    by (auto simp: leading_space_def find_Some_iff split: option.splits)
  with \<open>leading_space s \<noteq> 0\<close> show "(drop (leading_space s) s, s) \<in> measure length"
    by simp
qed simp

function TrimRight :: "string \<Rightarrow> string" where
  "TrimRight s = (if trailing_space s = 0 then s
                  else TrimRight (take (length s - trailing_space s) s))"
  by pat_completeness auto
termination
proof (relation "measure length")
  fix s :: string
  assume "trailing_space s \<noteq> 0"
  then have "s \<noteq> []"
    by (auto simp: trailing_space_def find_Some_iff split: option.splits)
  with \<open>trailing_space s \<noteq> 0\<close>
  show "(take (length s - trailing_space s) s, s) \<in> measure length"
    by simp
qed simp

declare TrimLeft.simps [simp del] TrimRight.simps [simp del]

text \<open>\<open>strings.TrimSpace\<close>: all leading and trailing white space removed.\<close>

definition TrimSpace :: "string \<Rightarrow> string" where
  "TrimSpace s = TrimRight (TrimLeft s)"

text \<open>
  The pieces of a string between the bytes that satisfy \<open>f\<close>, empty pieces included
  (always at least one piece).
\<close>

fun pieces :: "(char \<Rightarrow> bool) \<Rightarrow> string \<Rightarrow> string list" where
  "pieces f [] = [[]]"
| "pieces f (c # cs) =
     (if f c then [] # pieces f cs
      else (case pieces f cs of [] \<Rightarrow> [[c]] | p # ps \<Rightarrow> (c # p) # ps))"

text \<open>\<open>strings.Split(s, sep)\<close> for a separator of one byte: \<open>Split '''' '',''\<close> is \<open>['''']\<close>.\<close>

definition Split :: "string \<Rightarrow> char \<Rightarrow> string list" where
  "Split s sep = pieces (\<lambda>c. c = sep) s"

text \<open>\<open>strings.FieldsFunc\<close> for a predicate on ASCII bytes: the non-empty pieces.\<close>

definition FieldsFunc :: "string \<Rightarrow> (char \<Rightarrow> bool) \<Rightarrow> string list" where
  "FieldsFunc s f = filter (\<lambda>p. p \<noteq> []) (pieces f s)"

text \<open>\<open>strings.Contains(s, sep)\<close> for a separator of one byte.\<close>

definition Contains_byte :: "string \<Rightarrow> char \<Rightarrow> bool" where
  "Contains_byte s c = (c \<in> set s)"

text \<open>\<open>bytealg.IndexByteString\<close> and \<open>bytealg.LastIndexByteString\<close>; \<open>None\<close> is Go's -1.\<close>

fun IndexByte :: "string \<Rightarrow> char \<Rightarrow> nat option" where
  "IndexByte [] c = None"
| "IndexByte (x # xs) c =
     (if x = c then Some 0 else map_option Suc (IndexByte xs c))"

definition LastIndexByte :: "string \<Rightarrow> char \<Rightarrow> nat option" where
  "LastIndexByte s c =
     (case IndexByte (rev s) c of None \<Rightarrow> None | Some k \<Rightarrow> Some (length s - 1 - k))"

text \<open>The slice expression \<open>s[i:j]\<close>.\<close>

definition slice :: "'a list \<Rightarrow> nat \<Rightarrow> nat \<Rightarrow> 'a list" where
  "slice s i j = take (j - i) (drop i s)"

section \<open>Package \<open>net\<close>: host and port\<close>

datatype AddrError = missingPort | tooManyColons | missingBracket
  | unexpectedLBracket | unexpectedRBracket

text \<open>
  \<open>net.SplitHostPort\<close>; the result is the error or the pair (host, port). Where the
  first byte \<open>hostport[0]\<close> is read, a colon has been found, so the string is not empty.
\<close>

definition SplitHostPort :: "string \<Rightarrow> AddrError + (string \<times> string)" where
  "SplitHostPort hostport =
     (case LastIndexByte hostport (CHR '':'') of
        None \<Rightarrow> Inl missingPort
      | Some i \<Rightarrow>
          (if hd hostport = CHR ''[''
           then (case IndexByte hostport (CHR '']'') of
                   None \<Rightarrow> Inl missingBracket
                 | Some end \<Rightarrow>
                     (if end + 1 = length hostport then Inl missingPort
                      else if end + 1 = i then
                        (if IndexByte (drop 1 hostport) (CHR ''['') \<noteq> None
                           then Inl unexpectedLBracket
                         else if IndexByte (drop (end + 1) hostport) (CHR '']'') \<noteq> None
                           then Inl unexpectedRBracket
                         else Inr (slice hostport 1 end, drop (i + 1) hostport))
                      else if hostport ! (end + 1) = CHR '':'' then Inl tooManyColons
                      else Inl missingPort))
           else (let host = take i hostport in
                 if IndexByte host (CHR '':'') \<noteq> None then Inl tooManyColons
                 else if IndexByte hostport (CHR ''['') \<noteq> None then Inl unexpectedLBracket
                 else if IndexByte hostport (CHR '']'') \<noteq> None then Inl unexpectedRBracket
                 else Inr (host, drop (i + 1) hostport))))"

section \<open>Package \<open>net\<close>: addresses\<close>

text \<open>
  \<open>net.IP\<close> is a byte slice of length 4 or 16; the nil slice that \<open>net.ParseIP\<close> and
  \<open>IP.To4\<close> return on failure is \<open>None\<close> of an option.
\<close>

type_synonym byte = "8 word"
type_synonym IP = "byte list"
type_synonym IPMask = "byte list"

record IPNet =
  IP :: IP
  Mask :: IPMask

definition IPv4len :: nat where "IPv4len = 4"
definition IPv6len :: nat where "IPv6len = 16"

definition v4InV6Prefix :: "byte list" where
  "v4InV6Prefix = [0, 0, 0, 0, 0, 0, 0, 0, 0, 0, 0xff, 0xff]"

text \<open>\<open>netip.Addr\<close>: an IPv4 address, or an IPv6 address (16 bytes) with its zone.\<close>

datatype Addr = Addr4 "byte list" | Addr6 "byte list" string

fun BitLen :: "Addr \<Rightarrow> nat" where
  "BitLen (Addr4 b) = 32"
| "BitLen (Addr6 b z) = 128"

fun Zone :: "Addr \<Rightarrow> string" where
  "Zone (Addr4 b) = []"
| "Zone (Addr6 b z) = z"

fun As16 :: "Addr \<Rightarrow> byte list" where
  "As16 (Addr4 b) = v4InV6Prefix @ b"
| "As16 (Addr6 b z) = b"

text \<open>
  \<open>netip.parseIPv4Fields\<close>: the loop over the bytes of \<open>s\<close>, with the index \<open>i\<close>, the
  octet \<open>val\<close> read so far, the number \<open>pos\<close> of octets stored and the number \<open>digLen\<close>
  of digits of the current octet. \<open>None\<close> is a parse error.
\<close>

fun parseIPv4Fields_loop ::
  "string \<Rightarrow> nat \<Rightarrow> string \<Rightarrow> int \<Rightarrow> nat \<Rightarrow> nat \<Rightarrow> byte list \<Rightarrow> byte list option" where
  "parseIPv4Fields_loop s i [] val pos digLen flds =
     (if pos < 3 then None else Some (flds[3 := of_int val]))"
| "parseIPv4Fields_loop s i (c # cs) val pos digLen flds =
     (if is_digit c then
        (if digLen = 1 \<and> val = 0 then None
         else (let val' = val * 10 + (byteval c - 48) in
               if val' > 255 then None
               else parseIPv4Fields_loop s (i + 1) cs val' pos (digLen + 1) flds))
      else if c = CHR ''.'' then
        (if i = 0 \<or> i = length s - 1 \<or> s ! (i - 1) = CHR ''.'' then None
         else if pos = 3 then None
         else parseIPv4Fields_loop s (i + 1) cs 0 (pos + 1) 0 (flds[pos := of_int val]))
      else None)"

definition parseIPv4Fields :: "string \<Rightarrow> byte list option" where
  "parseIPv4Fields s = parseIPv4Fields_loop s 0 s 0 0 0 [0, 0, 0, 0]"

definition parseIPv4 :: "string \<Rightarrow> Addr option" where
  "parseIPv4 s = map_option Addr4 (parseIPv4Fields s)"

text \<open>The value of a hexadecimal digit, \<open>None\<close> for any other byte.\<close>

definition hexval :: "char \<Rightarrow> 32 word option" where
  "hexval c =
     (let n = byteval c in
      if 48 \<le> n \<and> n \<le> 57 then Some (of_int (n - 48))
      else if 97 \<le> n \<and> n \<le> 102 then Some (of_int (n - 97 + 10))
      else if 65 \<le> n \<and> n \<le> 70 then Some (of_int (n - 65 + 10))
      else None)"

text \<open>
  The inner loop of \<open>netip.parseIPv6\<close> that reads one group of hexadecimal digits:
  the result is the number \<open>off\<close> of digits read and their value \<open>acc\<close> (a \<open>uint32\<close>),
  or an error at a fifth digit.
\<close>

fun hexgroup :: "string \<Rightarrow> nat \<Rightarrow> 32 word \<Rightarrow> (nat \<times> 32 word) option" where
  "hexgroup [] off acc = Some (off, acc)"
| "hexgroup (c # cs) off acc =
     (case hexval c of
        None \<Rightarrow> Some (off, acc)
      | Some d \<Rightarrow>
          (let acc' = push_bit 4 acc + d in
           if off > 3 then None
           else if acc' > 0xFFFF then None
           else hexgroup cs (off + 1) acc'))"

text \<open>
  The main loop of \<open>netip.parseIPv6\<close>, \<open>for i < 16\<close>, on the rest \<open>s\<close> of the text, the
  array \<open>ip\<close> and the position \<open>ellipsis\<close> of the \<open>::\<close> (\<open>None\<close> is Go's -1). It ends with
  an error (\<open>None\<close>) or with the state at the loop's exit.
\<close>

function parseIPv6_loop ::
  "string \<Rightarrow> nat \<Rightarrow> byte list \<Rightarrow> nat option \<Rightarrow> (string \<times> nat \<times> byte list \<times> nat option) option"
where
  "parseIPv6_loop s i ip ellipsis =
     (if \<not> i < 16 then Some (s, i, ip, ellipsis)
      else
        (case hexgroup s 0 0 of
           None \<Rightarrow> None
         | Some (off, acc) \<Rightarrow>
             if off = 0 then None
             else if off < length s \<and> s ! off = CHR ''.'' then
               (if ellipsis = None \<and> i \<noteq> 12 then None
                else if i + 4 > 16 then None
                else (case parseIPv4Fields s of
                        None \<Rightarrow> None
                      | Some flds \<Rightarrow>
                          Some ([], i + 4, take i ip @ flds @ drop (i + 4) ip, ellipsis)))
             else
               (let ip1 = ip[i := ucast (drop_bit 8 acc), i + 1 := ucast acc];
                    i1 = i + 2;
                    s1 = drop off s
                in if s1 = [] then Some (s1, i1, ip1, ellipsis)
                   else if hd s1 \<noteq> CHR '':'' then None
                   else if length s1 = 1 then None
                   else (let s2 = drop 1 s1 in
                         if hd s2 = CHR '':'' then
                           (if ellipsis \<noteq> None then None
                            else (let s3 = drop 1 s2 in
                                  if s3 = [] then Some (s3, i1, ip1, Some i1)
                                  else parseIPv6_loop s3 i1 ip1 (Some i1)))
                         else parseIPv6_loop s2 i1 ip1 ellipsis))))"
  by pat_completeness auto
termination
  by (relation "measure (\<lambda>(s, i, ip, ellipsis). 16 - i)") auto

declare parseIPv6_loop.simps [simp del]

text \<open>
  \<open>netip.parseIPv6\<close>: the zone is split off at the first \<open>%\<close>, a leading \<open>::\<close> is read,
  the loop runs, and the \<open>::\<close> is expanded to the missing zero bytes.
\<close>

definition expand_ellipsis :: "string \<times> nat \<times> byte list \<times> nat option \<Rightarrow> byte list option" where
  "expand_ellipsis st =
     (case st of (s, i, ip, ellipsis) \<Rightarrow>
        if s \<noteq> [] then None
        else if i < 16 then
          (case ellipsis of
             None \<Rightarrow> None
           | Some e \<Rightarrow> Some (take e ip @ replicate (16 - i) 0 @ slice ip e i))
        else if ellipsis \<noteq> None then None
        else Some ip)"

definition parseIPv6 :: "string \<Rightarrow> Addr option" where
  "parseIPv6 txt =
     (let (s, zone, ok) =
            (case IndexByte txt (CHR ''%'') of
               None \<Rightarrow> (txt, [], True)
             | Some i \<Rightarrow> (take i txt, drop (i + 1) txt, drop (i + 1) txt \<noteq> []))
      in if \<not> ok then None
         else
           (let lead = (length s \<ge> 2 \<and> s ! 0 = CHR '':'' \<and> s ! 1 = CHR '':'');
                s0 = (if lead then drop 2 s else s);
                ellipsis = (if lead then Some 0 else None)
            in if lead \<and> s0 = [] then Some (Addr6 (replicate 16 0) zone)
               else (case parseIPv6_loop s0 0 (replicate 16 0) ellipsis of
                       None \<Rightarrow> None
                     | Some st \<Rightarrow> map_option (\<lambda>b. Addr6 b zone) (expand_ellipsis st))))"

text \<open>\<open>netip.ParseAddr\<close>: the first of \<open>.\<close>, \<open>:\<close> and \<open>%\<close> in the text picks the parser.\<close>

fun ParseAddr_scan :: "string \<Rightarrow> string \<Rightarrow> Addr option" where
  "ParseAddr_scan s [] = None"
| "ParseAddr_scan s (c # cs) =
     (if c = CHR ''.'' then parseIPv4 s
      else if c = CHR '':'' then parseIPv6 s
      else if c = CHR ''%'' then None
      else ParseAddr_scan s cs)"

definition ParseAddr :: "string \<Rightarrow> Addr option" where
  "ParseAddr s = ParseAddr_scan s s"

text \<open>\<open>net.ParseIP\<close>: 16 bytes for every address that parses and has no zone.\<close>

definition ParseIP :: "string \<Rightarrow> IP option" where
  "ParseIP s =
     (case ParseAddr s of
        None \<Rightarrow> None
      | Some a \<Rightarrow> if Zone a \<noteq> [] then None else Some (As16 a))"

text \<open>\<open>IP.To4\<close>.\<close>

definition To4 :: "IP \<Rightarrow> IP option" where
  "To4 ip =
     (if length ip = IPv4len then Some ip
      else if length ip = IPv6len \<and> list_all (\<lambda>b. b = 0) (take 10 ip)
              \<and> ip ! 10 = 0xff \<and> ip ! 11 = 0xff
        then Some (slice ip 12 16)
      else None)"

section \<open>Package \<open>net\<close>: networks\<close>

text \<open>
  \<open>net.dtoi\<close>: the decimal number a string starts with, the number of bytes read and
  whether a number below \<open>0xFFFFFF\<close> was read.
\<close>

definition big :: int where "big = 0xFFFFFF"

fun dtoi_loop :: "string \<Rightarrow> int \<Rightarrow> nat \<Rightarrow> int \<times> nat \<times> bool" where
  "dtoi_loop [] n i = (n, i, True)"
| "dtoi_loop (c # cs) n i =
     (if is_digit c then
        (let n' = n * 10 + (byteval c - 48) in
         if n' \<ge> big then (big, i, False) else dtoi_loop cs n' (i + 1))
      else (n, i, True))"

definition dtoi :: "string \<Rightarrow> int \<times> nat \<times> bool" where
  "dtoi s = (case dtoi_loop s 0 0 of
               (n, i, ok) \<Rightarrow> if \<not> ok then (n, i, False)
                             else if i = 0 then (0, 0, False) else (n, i, True))"

text \<open>
  \<open>net.CIDRMask\<close>: \<open>ones\<close> one bits followed by zero bits, \<open>bits\<close> in all. The loop
  fills \<open>l\<close> bytes with \<open>n\<close> one bits left to write. The nil mask is the empty list.
\<close>

fun CIDRMask_loop :: "nat \<Rightarrow> nat \<Rightarrow> byte list" where
  "CIDRMask_loop 0 n = []"
| "CIDRMask_loop (Suc l) n =
     (if n \<ge> 8 then 0xff # CIDRMask_loop l (n - 8)
      else NOT (drop_bit n (0xff :: byte)) # CIDRMask_loop l 0)"

definition CIDRMask :: "int \<Rightarrow> int \<Rightarrow> IPMask" where
  "CIDRMask ones bits =
     (if bits \<noteq> 8 * int IPv4len \<and> bits \<noteq> 8 * int IPv6len then []
      else if ones < 0 \<or> ones > bits then []
      else CIDRMask_loop (nat (bits div 8)) (nat ones))"

text \<open>\<open>IP.Mask\<close>: the address under the mask. The nil result is the empty list.\<close>

definition IP_Mask :: "IP \<Rightarrow> IPMask \<Rightarrow> IP" where
  "IP_Mask ip msk =
     (let msk1 = (if length msk = IPv6len \<and> length ip = IPv4len
                      \<and> list_all (\<lambda>b. b = 0xff) (take 12 msk)
                   then drop 12 msk else msk);
          ip1 = (if length msk1 = IPv4len \<and> length ip = IPv6len
                    \<and> take 12 ip = v4InV6Prefix
                 then drop 12 ip else ip)
      in if length ip1 \<noteq> length msk1 then []
         else map2 (\<lambda>b m. b AND m) ip1 msk1)"

text \<open>\<open>net.ParseCIDR\<close>, reduced to the network it returns; \<open>None\<close> is the parse error.\<close>

definition ParseCIDR :: "string \<Rightarrow> IPNet option" where
  "ParseCIDR s =
     (case IndexByte s (CHR ''/'') of
        None \<Rightarrow> None
      | Some i \<Rightarrow>
          (let addr = take i s; msk = drop (i + 1) s in
           case ParseAddr addr of
             None \<Rightarrow> None
           | Some ipAddr \<Rightarrow>
               if Zone ipAddr \<noteq> [] then None
               else (case dtoi msk of
                       (n, j, ok) \<Rightarrow>
                         if \<not> ok \<or> j \<noteq> length msk \<or> n < 0 \<or> n > int (BitLen ipAddr)
                         then None
                         else (let m = CIDRMask n (int (BitLen ipAddr));
                                   addr16 = As16 ipAddr
                               in Some \<lparr>IP = IP_Mask addr16 m, Mask = m\<rparr>))))"

text \<open>\<open>net.networkNumberAndMask\<close>; the pair (nil, nil) is the pair of empty lists.\<close>

definition networkNumberAndMask :: "IPNet \<Rightarrow> IP \<times> IPMask" where
  "networkNumberAndMask n =
     (case (case To4 (IP n) of
              Some x \<Rightarrow> Some x
            | None \<Rightarrow> if length (IP n) \<noteq> IPv6len then None else Some (IP n)) of
        None \<Rightarrow> ([], [])
      | Some ip \<Rightarrow>
          if length (Mask n) = IPv4len then
            (if length ip \<noteq> IPv4len then ([], []) else (ip, Mask n))
          else if length (Mask n) = IPv6len then
            (if length ip = IPv4len then (ip, drop 12 (Mask n)) else (ip, Mask n))
          else ([], []))"

text \<open>
  \<open>IPNet.Contains\<close>. Its loop compares \<open>nn[i] & m[i]\<close> with \<open>ip[i] & m[i]\<close> for every
  index below the common length of the three slices.
\<close>

fun Contains_loop :: "byte list \<Rightarrow> byte list \<Rightarrow> byte list \<Rightarrow> bool" where
  "Contains_loop (n # ns) (m # ms) (x # xs) =
     (if n AND m \<noteq> x AND m then False else Contains_loop ns ms xs)"
| "Contains_loop ns ms xs = True"

definition Contains :: "IPNet \<Rightarrow> IP \<Rightarrow> bool" where
  "Contains n ip =
     (case networkNumberAndMask n of
        (nn, m) \<Rightarrow>
          (let ip1 = (case To4 ip of Some x \<Rightarrow> x | None \<Rightarrow> ip) in
           if length ip1 \<noteq> length nn then False
           else Contains_loop nn m ip1))"

section \<open>Package \<open>net\<close>: the text of an address\<close>

definition digit_char :: "int \<Rightarrow> char" where
  "digit_char d = char_of (48 + d)"

definition hex_char :: "int \<Rightarrow> char" where
  "hex_char d = (if d < 10 then char_of (48 + d) else char_of (87 + d))"

text \<open>\<open>netip.appendDecimal\<close>: a byte in decimal, no leading zeros.\<close>

definition appendDecimal :: "byte \<Rightarrow> string" where
  "appendDecimal b =
     (let x = uint b in
      (if x \<ge> 100 then [digit_char (x div 100)] else [])
      @ (if x \<ge> 10 then [digit_char (x div 10 mod 10)] else [])
      @ [digit_char (x mod 10)])"

text \<open>\<open>netip.appendHex\<close>: a 16-bit group in lower-case hexadecimal, no leading zeros.\<close>

definition appendHex :: "int \<Rightarrow> string" where
  "appendHex x =
     (if x \<ge> 0x1000 then [hex_char (x div 0x1000)] else [])
     @ (if x \<ge> 0x100 then [hex_char (x div 0x100 mod 16)] else [])
     @ (if x \<ge> 0x10 then [hex_char (x div 0x10 mod 16)] else [])
     @ [hex_char (x mod 16)]"

definition join :: "string \<Rightarrow> string list \<Rightarrow> string" where
  "join sep xs = (case xs of [] \<Rightarrow> [] | y # ys \<Rightarrow> y @ concat (map (\<lambda>z. sep @ z) ys))"

definition string4 :: "byte list \<Rightarrow> string" where
  "string4 p4 = join ''.'' (map appendDecimal p4)"

text \<open>The eight 16-bit groups of a 16-byte address (\<open>Addr.v6u16\<close>).\<close>

fun v6u16 :: "byte list \<Rightarrow> int list" where
  "v6u16 (hi # lo # bs) = (uint hi * 256 + uint lo) # v6u16 bs"
| "v6u16 bs = []"

text \<open>
  The first loop of \<open>Addr.appendTo6\<close>: the first longest run of at least two zero
  groups, as the pair (zeroStart, zeroEnd), (255, 255) when there is none.
\<close>

definition zero_run :: "int list \<Rightarrow> nat \<times> nat" where
  "zero_run gs =
     fold (\<lambda>i (zeroStart, zeroEnd).
             (let j = i + length (takeWhile (\<lambda>g. g = 0) (drop i gs)); l = j - i in
              if l \<ge> 2 \<and> l > zeroEnd - zeroStart then (i, j) else (zeroStart, zeroEnd)))
          [0..<8] (255, 255)"

text \<open>
  The second loop of \<open>Addr.appendTo6\<close> writes the groups before zeroStart separated by
  colons, then \<open>::\<close>, then the groups from zeroEnd on separated by colons.
\<close>

definition string6 :: "byte list \<Rightarrow> string" where
  "string6 ip =
     (let gs = v6u16 ip in
      case zero_run gs of
        (zeroStart, zeroEnd) \<Rightarrow>
          if zeroStart < 8
          then join '':'' (map appendHex (take zeroStart gs)) @ ''::''
               @ join '':'' (map appendHex (drop zeroEnd gs))
          else join '':'' (map appendHex gs))"

definition hexString :: "byte list \<Rightarrow> string" where
  "hexString b = concat (map (\<lambda>x. [hex_char (uint x div 16), hex_char (uint x mod 16)]) b)"

text \<open>\<open>IP.String\<close>.\<close>

definition IP_String :: "IP \<Rightarrow> string" where
  "IP_String ip =
     (if length ip = 0 then ''<nil>''
      else if length ip \<noteq> IPv4len \<and> length ip \<noteq> IPv6len then ''?'' @ hexString ip
      else (case To4 ip of
              Some p4 \<Rightarrow> string4 p4
            | None \<Rightarrow> string6 ip))"

section \<open>Package \<open>common\<close>: the client IP resolver\<close>

subsection \<open>Process state\<close>

text \<open>
  A \<open>[]string\<close> slice is a reference to its backing array, or nil (\<open>None\<close>); the arrays
  live in a store indexed by address, so that two slices sharing an array are two equal
  references. The package variables \<open>trustedProxyCIDRs\<close>, \<open>trustedProxyOnce\<close> and
  \<open>trustedProxyList\<close> and the store are the process state. The networks behind
  \<open>trustedProxyCIDRs\<close> are reachable from this package only, so they are kept by value.
\<close>

type_synonym ref = nat
type_synonym strslice = "ref option"

record globals =
  store :: "string list list"
  trustedProxyOnce :: bool
  trustedProxyList :: strslice
  trustedProxyCIDRs :: "IPNet list"

definition init_globals :: globals where
  "init_globals =
     \<lparr>store = [], trustedProxyOnce = False, trustedProxyList = None, trustedProxyCIDRs = []\<rparr>"

definition elems :: "string list list \<Rightarrow> strslice \<Rightarrow> string list" where
  "elems h sl = (case sl of None \<Rightarrow> [] | Some r \<Rightarrow> h ! r)"

definition alloc :: "string list list \<Rightarrow> string list \<Rightarrow> strslice \<times> string list list" where
  "alloc h xs = (Some (length h), h @ [xs])"

subsection \<open>Loading the trusted proxies\<close>

text \<open>\<open>splitProxyList\<close>: the trimmed, non-empty fields between commas and semicolons.\<close>

fun splitProxyList_loop :: "string list \<Rightarrow> string list \<Rightarrow> string list" where
  "splitProxyList_loop [] list = list"
| "splitProxyList_loop (part # parts) list =
     (let v = TrimSpace part in
      if v \<noteq> [] then splitProxyList_loop parts (list @ [v])
      else splitProxyList_loop parts list)"

definition splitProxyList :: "string \<Rightarrow> string list" where
  "splitProxyList raw =
     (let splitFunc = (\<lambda>r. r = CHR '','' \<or> r = CHR '';'');
          parts = FieldsFunc raw splitFunc
      in splitProxyList_loop parts [])"

text \<open>
  \<open>parseProxyCIDRs\<close>: the loop over the list, with the networks collected so far. The
  two \<open>SysLog\<close> calls write log lines only and are left out.
\<close>

fun parseProxyCIDRs_loop :: "string list \<Rightarrow> IPNet list \<Rightarrow> IPNet list" where
  "parseProxyCIDRs_loop [] cidrs = cidrs"
| "parseProxyCIDRs_loop (proxy # list) cidrs =
     (if \<not> Contains_byte proxy (CHR ''/'') then
        (case ParseIP proxy of
           None \<Rightarrow> parseProxyCIDRs_loop list cidrs
         | Some ip \<Rightarrow>
             (let p = (if To4 ip \<noteq> None then proxy @ ''/32'' else proxy @ ''/128'') in
              case ParseCIDR p of
                None \<Rightarrow> parseProxyCIDRs_loop list cidrs
              | Some cidr \<Rightarrow> parseProxyCIDRs_loop list (cidrs @ [cidr])))
      else
        (case ParseCIDR proxy of
           None \<Rightarrow> parseProxyCIDRs_loop list cidrs
         | Some cidr \<Rightarrow> parseProxyCIDRs_loop list (cidrs @ [cidr])))"

definition parseProxyCIDRs :: "string list \<Rightarrow> IPNet list" where
  "parseProxyCIDRs list = parseProxyCIDRs_loop list []"

text \<open>
  \<open>loadTrustedProxies\<close>: the body runs once (\<open>sync.Once\<close>); \<open>proxiesEnv\<close> is the value
  of the environment variable \<open>TRUSTED_PROXIES\<close>. Each assignment to \<open>trustedProxyList\<close>
  stores a newly allocated array.
\<close>

definition loadTrustedProxies :: "string \<Rightarrow> globals \<Rightarrow> globals" where
  "loadTrustedProxies proxiesEnv g =
     (if trustedProxyOnce g then g
      else
        (let (l1, h1) = alloc (store g) (splitProxyList proxiesEnv);
             (l2, h2) = (if length (elems h1 l1) = 0
                         then alloc h1 [''0.0.0.0/0'', ''::/0''] else (l1, h1));
             cidrs2 = parseProxyCIDRs (elems h2 l2);
             (l3, h3) = (if length cidrs2 = 0
                         then alloc h2 [''0.0.0.0/0'', ''::/0''] else (l2, h2));
             cidrs3 = (if length cidrs2 = 0 then parseProxyCIDRs (elems h3 l3) else cidrs2)
         in \<lparr>store = h3, trustedProxyOnce = True, trustedProxyList = l3,
              trustedProxyCIDRs = cidrs3\<rparr>))"

text \<open>
  \<open>TrustedProxies\<close>: \<open>append([]string(nil), trustedProxyList...)\<close> is nil for an empty
  list and a newly allocated array holding the same strings otherwise.
\<close>

definition TrustedProxies :: "string \<Rightarrow> globals \<Rightarrow> strslice \<times> globals" where
  "TrustedProxies proxiesEnv g =
     (let g1 = loadTrustedProxies proxiesEnv g;
          xs = elems (store g1) (trustedProxyList g1)
      in if xs = [] then (None, g1)
         else (let (r, h) = alloc (store g1) xs in (r, g1\<lparr>store := h\<rparr>)))"

fun isTrustedProxyIP_loop :: "IPNet list \<Rightarrow> IP \<Rightarrow> bool" where
  "isTrustedProxyIP_loop [] ip = False"
| "isTrustedProxyIP_loop (cidr # cidrs) ip =
     (if Contains cidr ip then True else isTrustedProxyIP_loop cidrs ip)"

definition isTrustedProxyIP :: "string \<Rightarrow> globals \<Rightarrow> IP \<Rightarrow> bool \<times> globals" where
  "isTrustedProxyIP proxiesEnv g ip =
     (let g1 = loadTrustedProxies proxiesEnv g
      in (isTrustedProxyIP_loop (trustedProxyCIDRs g1) ip, g1))"

subsection \<open>Resolving one request\<close>

definition parseRemoteIP :: "string \<Rightarrow> IP option" where
  "parseRemoteIP remoteAddr =
     (let host = (case SplitHostPort (TrimSpace remoteAddr) of
                    Inr (host, port) \<Rightarrow> host
                  | Inl err \<Rightarrow> TrimSpace remoteAddr)
      in if host = [] then None else ParseIP host)"

text \<open>
  \<open>pickForwardedIP\<close>. \<open>IsPrivateIP\<close> is a function of package \<open>common\<close> whose source
  is not part of the files at hand; it is a parameter here.
\<close>

fun pickForwardedIP_loop :: "(IP \<Rightarrow> bool) \<Rightarrow> string list \<Rightarrow> string \<Rightarrow> string" where
  "pickForwardedIP_loop IsPrivateIP [] firstValid = firstValid"
| "pickForwardedIP_loop IsPrivateIP (part # parts) firstValid =
     (let ipStr = TrimSpace part in
      if ipStr = [] then pickForwardedIP_loop IsPrivateIP parts firstValid
      else (case ParseIP ipStr of
              None \<Rightarrow> pickForwardedIP_loop IsPrivateIP parts firstValid
            | Some ip \<Rightarrow>
                (let firstValid1 = (if firstValid = [] then ipStr else firstValid) in
                 if \<not> IsPrivateIP ip then ipStr
                 else pickForwardedIP_loop IsPrivateIP parts firstValid1)))"

definition pickForwardedIP :: "(IP \<Rightarrow> bool) \<Rightarrow> string \<Rightarrow> string" where
  "pickForwardedIP IsPrivateIP headerVal =
     (if headerVal = [] then []
      else pickForwardedIP_loop IsPrivateIP (Split headerVal (CHR '','')) [])"

text \<open>
  A request, as far as the resolver reads it: the field \<open>RemoteAddr\<close> and the lookup
  \<open>req.Header.Get\<close>, which gives the empty string for a header that is not set.
\<close>

record Request =
  RemoteAddr :: string
  Header_Get :: "string \<Rightarrow> string"

text \<open>
  The loop of \<open>RealClientIPFromRequest\<close> over the header names; the empty string
  stands for a loop that ended without returning.
\<close>

fun forwarded_loop :: "(IP \<Rightarrow> bool) \<Rightarrow> Request \<Rightarrow> string list \<Rightarrow> string" where
  "forwarded_loop IsPrivateIP req [] = []"
| "forwarded_loop IsPrivateIP req (header # headers) =
     (let ip = pickForwardedIP IsPrivateIP (Header_Get req header) in
      if ip \<noteq> [] then ip else forwarded_loop IsPrivateIP req headers)"

definition RealClientIPFromRequest ::
  "string \<Rightarrow> (IP \<Rightarrow> bool) \<Rightarrow> globals \<Rightarrow> Request option \<Rightarrow> string \<times> globals" where
  "RealClientIPFromRequest proxiesEnv IsPrivateIP g req =
     (case req of
        None \<Rightarrow> ([], g)
      | Some r \<Rightarrow>
          (case parseRemoteIP (RemoteAddr r) of
             None \<Rightarrow> ([], g)
           | Some remoteIP \<Rightarrow>
               (let (trusted, g1) = isTrustedProxyIP proxiesEnv g remoteIP;
                    ip = (if trusted
                          then forwarded_loop IsPrivateIP r
                                 [''X-Forwarded-For'', ''X-Real-IP'', ''CF-Connecting-IP'']
                          else [])
                in if ip \<noteq> [] then (ip, g1) else (IP_String remoteIP, g1))))"

subsection \<open>The per-request cache\<close>

text \<open>
  A \<open>gin.Context\<close>, as far as \<open>RealClientIP\<close> uses it: the key-value bag behind \<open>c.Get\<close>
  and \<open>c.Set\<close>, whose values are of any type, and the request. The framework's own
  \<open>c.ClientIP()\<close> is a parameter.
\<close>

datatype any = AnyString string | AnyOther

record Context =
  Keys :: "string \<rightharpoonup> any"
  Request :: "Request option"

definition realClientIPKey :: string where
  "realClientIPKey = ''real_client_ip''"

definition RealClientIP ::
  "string \<Rightarrow> (IP \<Rightarrow> bool) \<Rightarrow> (Context \<Rightarrow> string) \<Rightarrow> globals \<Rightarrow> Context
     \<Rightarrow> string \<times> Context \<times> globals" where
  "RealClientIP proxiesEnv IsPrivateIP ClientIP g c =
     (let cached = (case Keys c realClientIPKey of
                      Some (AnyString ip) \<Rightarrow> ip
                    | _ \<Rightarrow> [])
      in if cached \<noteq> [] then (cached, c, g)
         else (let (ip, g1) = RealClientIPFromRequest proxiesEnv IsPrivateIP g (Request c) in
               if ip \<noteq> []
               then (ip, c\<lparr>Keys := (Keys c)(realClientIPKey \<mapsto> AnyString ip)\<rparr>, g1)
               else (ClientIP c, c, g1)))"

section \<open>Notions used to state the properties\<close>

text \<open>The host part of a transport address, as \<open>parseRemoteIP\<close> computes it.\<close>

definition remote_host :: "string \<Rightarrow> string" where
  "remote_host remoteAddr =
     (case SplitHostPort (TrimSpace remoteAddr) of
        Inr (host, port) \<Rightarrow> host
      | Inl err \<Rightarrow> TrimSpace remoteAddr)"

text \<open>
  Modelled from the spec: \<open>IsPrivateIP\<close> is not among the source files; the glossary
  describes a private/reserved address as one inside a standard non-routable block
  (RFC1918 ranges, loopback, link-local). This instance is used for examples only; the
  properties below hold for every classification.
\<close>

definition private_ranges :: "IPNet list" where
  "private_ranges =
     [\<lparr>IP = [10, 0, 0, 0], Mask = [0xff, 0, 0, 0]\<rparr>,
      \<lparr>IP = [172, 16, 0, 0], Mask = [0xff, 0xf0, 0, 0]\<rparr>,
      \<lparr>IP = [192, 168, 0, 0], Mask = [0xff, 0xff, 0, 0]\<rparr>,
      \<lparr>IP = [127, 0, 0, 0], Mask = [0xff, 0, 0, 0]\<rparr>,
      \<lparr>IP = [169, 254, 0, 0], Mask = [0xff, 0xff, 0, 0]\<rparr>,
      \<lparr>IP = [0, 0, 0, 0, 0, 0, 0, 0, 0, 0, 0, 0, 0, 0, 0, 1],
        Mask = replicate 16 0xff\<rparr>,
      \<lparr>IP = [0xfe, 0x80, 0, 0, 0, 0, 0, 0, 0, 0, 0, 0, 0, 0, 0, 0],
        Mask = [0xff, 0xc0, 0, 0, 0, 0, 0, 0, 0, 0, 0, 0, 0, 0, 0, 0]\<rparr>]"

definition IsPrivateIP_std :: "IP \<Rightarrow> bool" where
  "IsPrivateIP_std ip = list_ex (\<lambda>n. Contains n ip) private_ranges"

text \<open>
  The candidate of a header value in the words of the specification: of the trimmed
  entries of the comma-separated chain, the first that parses as an IP and is not
  private; failing that, the first that parses; failing that, the empty string.
\<close>

definition entry_valid :: "string \<Rightarrow> bool" where
  "entry_valid e = (ParseIP e \<noteq> None)"

definition entry_public :: "(IP \<Rightarrow> bool) \<Rightarrow> string \<Rightarrow> bool" where
  "entry_public IsPrivateIP e =
     (case ParseIP e of None \<Rightarrow> False | Some ip \<Rightarrow> \<not> IsPrivateIP ip)"

definition candidate_spec :: "(IP \<Rightarrow> bool) \<Rightarrow> string \<Rightarrow> string" where
  "candidate_spec IsPrivateIP headerVal =
     (let entries = map TrimSpace (Split headerVal (CHR '',''))
      in case List.find (entry_public IsPrivateIP) entries of
           Some e \<Rightarrow> e
         | None \<Rightarrow> (case List.find entry_valid entries of
                      Some e \<Rightarrow> e
                    | None \<Rightarrow> []))"

text \<open>
  The first non-empty candidate among the values of the given headers, taken in the
  order of the list.
\<close>

definition first_candidate ::
  "(IP \<Rightarrow> bool) \<Rightarrow> (string \<Rightarrow> string) \<Rightarrow> string list \<Rightarrow> string option" where
  "first_candidate IsPrivateIP lookup headers =
     List.find (\<lambda>c. c \<noteq> [])
       (map (\<lambda>header. pickForwardedIP IsPrivateIP (lookup header)) headers)"


text \<open>
  The slice held in \<open>trustedProxyList\<close> refers to an array of the store. This holds
  initially and every function of the package keeps it.
\<close>

definition wf_globals :: "globals \<Rightarrow> bool" where
  "wf_globals g = (case trustedProxyList g of None \<Rightarrow> True | Some a \<Rightarrow> a < length (store g))"

text \<open>The non-empty string cached on a context, if any (the empty string otherwise).\<close>

definition cached_ip :: "Context \<Rightarrow> string" where
  "cached_ip c = (case Keys c realClientIPKey of Some (AnyString ip) \<Rightarrow> ip | _ \<Rightarrow> [])"

text \<open>An address as a number: its bytes in network order.\<close>

fun ip_val :: "byte list \<Rightarrow> nat" where
  "ip_val [] = 0"
| "ip_val (b # bs) = unat b * 256 ^ length bs + ip_val bs"

text \<open>Two byte slices of the same length, combined byte-wise by \<open>&\<close>.\<close>

definition and_mask :: "byte list \<Rightarrow> byte list \<Rightarrow> byte list" where
  "and_mask xs ms = map2 (\<lambda>b m. b AND m) xs ms"

text \<open>
  What the loop of \<open>parseIPv6\<close> keeps: the array has 16 bytes and the \<open>::\<close>, if read, lies
  at or before the write position.
\<close>

definition loop_inv :: "nat \<Rightarrow> byte list \<Rightarrow> nat option \<Rightarrow> bool" where
  "loop_inv i ip ellipsis = (length ip = 16 \<and> (case ellipsis of None \<Rightarrow> True | Some e \<Rightarrow> e \<le> i))"

text \<open>
  The shape of the networks \<open>ParseCIDR\<close> returns, as \<open>networkNumberAndMask\<close> reads
  them: a base address under a mask of \<open>p\<close> one bits, and the mask.
\<close>

definition prefix_net :: "IPNet \<Rightarrow> bool" where
  "prefix_net n =
     (\<exists>l base p. length base = l \<and> p \<le> 8 * l \<and>
        networkNumberAndMask n = (and_mask base (CIDRMask_loop l p), CIDRMask_loop l p))"

text \<open>
  The address a \<open>net.IP\<close> value stands for: 4 bytes for an IPv4 address, also when it
  is held in 16 bytes (\<open>To4\<close>), 16 bytes otherwise.
\<close>

definition addr_of :: "IP \<Rightarrow> IP" where
  "addr_of ip = (case To4 ip of Some x \<Rightarrow> x | None \<Rightarrow> ip)"

text \<open>
  The range of a network as numbers: from the network number to the network number
  plus the host mask. An address lies in the range when it is of the same family (4 or
  16 bytes) and its number lies between the two.
\<close>

definition net_first :: "IPNet \<Rightarrow> nat" where
  "net_first n = ip_val (fst (networkNumberAndMask n))"

definition net_last :: "IPNet \<Rightarrow> nat" where
  "net_last n =
     (case networkNumberAndMask n of
        (nn, m) \<Rightarrow> ip_val nn + (256 ^ length nn - 1 - ip_val m))"

definition in_net :: "IPNet \<Rightarrow> IP \<Rightarrow> bool" where
  "in_net n ip =
     (length (addr_of ip) = length (fst (networkNumberAndMask n))
      \<and> net_first n \<le> ip_val (addr_of ip) \<and> ip_val (addr_of ip) \<le> net_last n)"

section \<open>Properties of the resolver\<close>

subsection \<open>Loading happens once\<close>

lemma once_after_load: "trustedProxyOnce (loadTrustedProxies env g)"
  by (simp add: loadTrustedProxies_def Let_def split: prod.splits)

lemma loadTrustedProxies_idem:
  "loadTrustedProxies env' (loadTrustedProxies env g) = loadTrustedProxies env g"
  using once_after_load [of env g] by (simp add: loadTrustedProxies_def [of env'])

lemma parseRemoteIP_host:
  "parseRemoteIP ra = (if remote_host ra = [] then None else ParseIP (remote_host ra))"
  by (simp add: parseRemoteIP_def remote_host_def)

subsection \<open>Untrusted peers\<close>



subsection \<open>Malformed transport addresses and missing requests\<close>

text \<open>
  Claim C7. When the host part of the transport remote address is empty or does not
  parse as an IP address, there is no remote IP, and \<open>RealClientIPFromRequest\<close> returns
  the empty string (a plain string, not an error) and leaves the process state as it was.
\<close>

theorem malformed_remote_gives_empty:
  "remote_host ra = [] \<or> ParseIP (remote_host ra) = None \<Longrightarrow>
   parseRemoteIP ra = None \<and>
   RealClientIPFromRequest env P g (Some \<lparr>RemoteAddr = ra, Header_Get = h\<rparr>) = ([], g)"
  by (auto simp: parseRemoteIP_host RealClientIPFromRequest_def)

theorem malformed_remote_gives_empty_witness:
  "(remote_host ''example.com:443'' = [] \<or> ParseIP (remote_host ''example.com:443'') = None)
   \<and> RealClientIPFromRequest ''10.0.0.0/8'' IsPrivateIP_std init_globals
       (Some \<lparr>RemoteAddr = ''example.com:443'', Header_Get = (\<lambda>k. ''203.0.113.7'')\<rparr>)
     = ([], init_globals)"
proof -
  have h: "ParseIP (remote_host ''example.com:443'') = None" by code_simp
  show ?thesis
    using h malformed_remote_gives_empty [of "''example.com:443''"] by simp
qed

text \<open>
  Claim C10. \<open>RealClientIPFromRequest\<close> called with a nil request returns the empty
  string, and touches nothing.
\<close>

theorem nil_request_gives_empty:
  "RealClientIPFromRequest env P g None = ([], g)"
  by (simp add: RealClientIPFromRequest_def)

subsection \<open>Candidate selection\<close>

lemma ParseIP_empty: "ParseIP [] = None"
  by code_simp

lemma TrimSpace_empty: "TrimSpace [] = []"
  by code_simp

lemma Split_empty: "Split [] c = [[]]"
  by (simp add: Split_def)

text \<open>
  The loop with its fallback \<open>fv\<close>: a public entry further on wins; otherwise the
  fallback already held is kept, and an empty fallback is set by the first valid entry.
\<close>

lemma pickForwardedIP_loop_spec:
  "pickForwardedIP_loop P parts fv =
     (case List.find (entry_public P) (map TrimSpace parts) of
        Some e \<Rightarrow> e
      | None \<Rightarrow> if fv \<noteq> [] then fv
                else (case List.find entry_valid (map TrimSpace parts) of
                        Some e \<Rightarrow> e
                      | None \<Rightarrow> []))"
proof (induction parts arbitrary: fv)
  case Nil
  then show ?case by simp
next
  case (Cons part parts)
  show ?case
  proof (cases "ParseIP (TrimSpace part)")
    case None
    then show ?thesis
      by (simp add: Cons.IH entry_public_def entry_valid_def Let_def split: option.split)
  next
    case (Some ip)
    then have ne: "TrimSpace part \<noteq> []"
      using ParseIP_empty by auto
    show ?thesis
      using Some ne
      by (simp add: Cons.IH entry_public_def entry_valid_def Let_def split: option.split)
  qed
qed

text \<open>
  Claim C2. For every header value, \<open>pickForwardedIP\<close> returns the first trimmed entry
  of the comma-separated chain (left to right) that parses as an IP and is not private;
  if every entry that parses is private, the first entry that parses; if no entry
  parses, the empty string.
\<close>

theorem pickForwardedIP_is_candidate_spec:
  "pickForwardedIP P headerVal = candidate_spec P headerVal"
proof (cases "headerVal = []")
  case True
  then show ?thesis
    by (simp add: pickForwardedIP_def candidate_spec_def Split_empty TrimSpace_empty
        entry_public_def entry_valid_def ParseIP_empty)
next
  case False
  then show ?thesis
    by (simp add: pickForwardedIP_def candidate_spec_def pickForwardedIP_loop_spec Let_def)
qed

subsection \<open>Header priority\<close>

lemma forwarded_loop_first:
  "forwarded_loop P r headers =
     (case first_candidate P (Header_Get r) headers of Some c \<Rightarrow> c | None \<Rightarrow> [])"
  by (induction headers) (simp_all add: first_candidate_def Let_def)

lemma first_candidate_nonempty:
  "first_candidate P lookup headers = Some c \<Longrightarrow> c \<noteq> []"
  by (auto simp: first_candidate_def find_Some_iff)

lemma pick_single_example: "pickForwardedIP P ''198.51.100.9'' = ''198.51.100.9''"
proof -
  have a: "Split ''198.51.100.9'' (CHR '','') = [''198.51.100.9'']" by code_simp
  have b: "TrimSpace ''198.51.100.9'' = ''198.51.100.9''" by code_simp
  have c: "ParseIP ''198.51.100.9'' \<noteq> None" by code_simp
  then obtain ip where d: "ParseIP ''198.51.100.9'' = Some ip" by blast
  show ?thesis
    by (simp add: pickForwardedIP_def a b d Let_def)
qed

text \<open>
  Claim C3. For a request whose remote IP is trusted, the result is the candidate of the
  first of X-Forwarded-For, X-Real-IP, CF-Connecting-IP (in this order) whose value
  yields a non-empty candidate, and the remote IP when none does; in particular, with an
  empty X-Forwarded-For and X-Real-IP set to 198.51.100.9 the result is 198.51.100.9.
\<close>

theorem trusted_remote_header_priority:
  assumes "parseRemoteIP ra = Some ip"
    and "fst (isTrustedProxyIP env g ip)"
  shows "fst (RealClientIPFromRequest env P g (Some \<lparr>RemoteAddr = ra, Header_Get = h\<rparr>))
           = (case first_candidate P h
                     [''X-Forwarded-For'', ''X-Real-IP'', ''CF-Connecting-IP''] of
                Some c \<Rightarrow> c
              | None \<Rightarrow> IP_String ip)
       \<and> (h ''X-Forwarded-For'' = [] \<and> h ''X-Real-IP'' = ''198.51.100.9'' \<longrightarrow>
            fst (RealClientIPFromRequest env P g (Some \<lparr>RemoteAddr = ra, Header_Get = h\<rparr>))
              = ''198.51.100.9'')"
proof -
  obtain t g1 where e: "isTrustedProxyIP env g ip = (t, g1)"
    by (cases "isTrustedProxyIP env g ip")
  with assms(2) have t by simp
  have r: "fst (RealClientIPFromRequest env P g (Some \<lparr>RemoteAddr = ra, Header_Get = h\<rparr>))
           = (case first_candidate P h
                     [''X-Forwarded-For'', ''X-Real-IP'', ''CF-Connecting-IP''] of
                Some c \<Rightarrow> c
              | None \<Rightarrow> IP_String ip)"
    using assms(1) e \<open>t\<close>
    by (auto simp: RealClientIPFromRequest_def forwarded_loop_first
        split: option.split dest: first_candidate_nonempty)
  have x: "pickForwardedIP P [] = []"
    by (simp add: pickForwardedIP_def)
  have "h ''X-Forwarded-For'' = [] \<and> h ''X-Real-IP'' = ''198.51.100.9'' \<longrightarrow>
        first_candidate P h [''X-Forwarded-For'', ''X-Real-IP'', ''CF-Connecting-IP'']
          = Some ''198.51.100.9''"
    by (simp add: first_candidate_def x pick_single_example)
  with r show ?thesis by simp
qed

theorem trusted_remote_header_priority_witness:
  "parseRemoteIP ''10.1.1.1:5000'' = Some [0,0,0,0,0,0,0,0,0,0,0xff,0xff,10,1,1,1]
   \<and> fst (isTrustedProxyIP ''10.0.0.0/8'' init_globals
            [0,0,0,0,0,0,0,0,0,0,0xff,0xff,10,1,1,1])
   \<and> fst (RealClientIPFromRequest ''10.0.0.0/8'' IsPrivateIP_std init_globals
           (Some \<lparr>RemoteAddr = ''10.1.1.1:5000'',
                  Header_Get = (\<lambda>k. if k = ''X-Real-IP'' then ''198.51.100.9'' else [])\<rparr>))
       = ''198.51.100.9''"
proof -
  have p: "parseRemoteIP ''10.1.1.1:5000''
             = Some [0,0,0,0,0,0,0,0,0,0,0xff,0xff,10,1,1,1]"
    by code_simp
  have t: "fst (isTrustedProxyIP ''10.0.0.0/8'' init_globals
                 [0,0,0,0,0,0,0,0,0,0,0xff,0xff,10,1,1,1])"
    by code_simp
  show ?thesis
    using p t trusted_remote_header_priority
            [OF p t, of IsPrivateIP_std
               "\<lambda>k. if k = ''X-Real-IP'' then ''198.51.100.9'' else []", THEN conjunct2]
    by simp
qed

subsection \<open>The trusted-proxy set, the per-request cache\<close>

lemma elems_alloc: "elems (h @ xs # ys) (Some (length h)) = xs"
  by (simp add: elems_def)

lemma elems_alloc2: "elems (h @ a # xs # ys) (Some (Suc (length h))) = xs"
  by (simp add: elems_def nth_append)

lemma elems_alloc3: "elems (h @ a # b # xs # ys) (Some (Suc (Suc (length h)))) = xs"
  by (simp add: elems_def nth_append)

lemma default_cidrs:
  "parseProxyCIDRs [''0.0.0.0/0'', ''::/0''] =
     [\<lparr>IP = [0, 0, 0, 0], Mask = [0, 0, 0, 0]\<rparr>,
      \<lparr>IP = [0, 0, 0, 0, 0, 0, 0, 0, 0, 0, 0, 0, 0, 0, 0, 0],
        Mask = [0, 0, 0, 0, 0, 0, 0, 0, 0, 0, 0, 0, 0, 0, 0, 0]\<rparr>]"
  by code_simp

lemma parseProxyCIDRs_Nil: "parseProxyCIDRs [] = []"
  by (simp add: parseProxyCIDRs_def)

lemma load_permissive:
  assumes "\<not> trustedProxyOnce g"
    and "parseProxyCIDRs (splitProxyList env) = []"
  shows "elems (store (loadTrustedProxies env g)) (trustedProxyList (loadTrustedProxies env g))
           = [''0.0.0.0/0'', ''::/0'']
       \<and> trustedProxyCIDRs (loadTrustedProxies env g) = parseProxyCIDRs [''0.0.0.0/0'', ''::/0'']"
  using assms
  by (simp add: loadTrustedProxies_def alloc_def elems_alloc elems_alloc2 elems_alloc3
      Let_def default_cidrs)

lemma Contains_loop_zero_mask:
  "\<forall>m \<in> set ms. m = 0 \<Longrightarrow> Contains_loop ns ms xs"
  by (induction ns ms xs rule: Contains_loop.induct) auto

lemma To4_length: "To4 ip = Some x \<Longrightarrow> length x = 4"
  by (auto simp: To4_def IPv4len_def IPv6len_def slice_def split: if_splits)

lemma To4_None_length: "To4 ip = None \<Longrightarrow> length ip \<noteq> 4"
  by (auto simp: To4_def IPv4len_def split: if_splits)

lemma all_trusted_by_default:
  assumes "length ip = IPv4len \<or> length ip = IPv6len"
  shows "isTrustedProxyIP_loop (parseProxyCIDRs [''0.0.0.0/0'', ''::/0'']) ip"
proof (cases "To4 ip")
  case None
  with assms have l: "length ip = 16"
    by (auto simp: IPv4len_def IPv6len_def dest: To4_None_length)
  have n: "networkNumberAndMask \<lparr>IP = [0, 0, 0, 0, 0, 0, 0, 0, 0, 0, 0, 0, 0, 0, 0, 0],
        Mask = [0, 0, 0, 0, 0, 0, 0, 0, 0, 0, 0, 0, 0, 0, 0, 0]\<rparr>
      = ([0, 0, 0, 0, 0, 0, 0, 0, 0, 0, 0, 0, 0, 0, 0, 0], [0, 0, 0, 0, 0, 0, 0, 0, 0, 0, 0, 0, 0, 0, 0, 0])"
    by code_simp
  have "Contains \<lparr>IP = [0, 0, 0, 0, 0, 0, 0, 0, 0, 0, 0, 0, 0, 0, 0, 0],
        Mask = [0, 0, 0, 0, 0, 0, 0, 0, 0, 0, 0, 0, 0, 0, 0, 0]\<rparr> ip"
    unfolding Contains_def n using None l
    by (simp add: Contains_loop_zero_mask)
  then show ?thesis
    by (simp add: default_cidrs)
next
  case (Some x)
  then have l: "length x = 4" by (rule To4_length)
  have n: "networkNumberAndMask \<lparr>IP = [0, 0, 0, 0], Mask = [0, 0, 0, 0]\<rparr>
      = ([0, 0, 0, 0], [0, 0, 0, 0])"
    by code_simp
  have "Contains \<lparr>IP = [0, 0, 0, 0], Mask = [0, 0, 0, 0]\<rparr> ip"
    unfolding Contains_def n using Some l
    by (simp add: Contains_loop_zero_mask)
  then show ?thesis
    by (simp add: default_cidrs)
qed

text \<open>
  Claim C4. When the configuration string splits to no token, or none of its tokens parses
  as an IP or CIDR, then after the initialization \<open>TrustedProxies()\<close> returns exactly
  \<open>["0.0.0.0/0", "::/0"]\<close>, and every IP address (4 or 16 bytes) is trusted.
\<close>

theorem permissive_default_when_nothing_parses:
  assumes "\<not> trustedProxyOnce g"
    and "splitProxyList env = [] \<or> parseProxyCIDRs (splitProxyList env) = []"
  shows "elems (store (snd (TrustedProxies env g))) (fst (TrustedProxies env g))
           = [''0.0.0.0/0'', ''::/0'']
       \<and> (\<forall>ip. length ip = IPv4len \<or> length ip = IPv6len \<longrightarrow>
              fst (isTrustedProxyIP env (snd (TrustedProxies env g)) ip))"
proof -
  from assms(2) have z: "parseProxyCIDRs (splitProxyList env) = []"
    by (auto simp: parseProxyCIDRs_Nil)
  note lp = load_permissive [OF assms(1) z]
  let ?g1 = "loadTrustedProxies env g"
  have tp: "TrustedProxies env g
              = (Some (length (store ?g1)),
                 ?g1\<lparr>store := store ?g1 @ [[''0.0.0.0/0'', ''::/0'']]\<rparr>)"
    using lp by (simp add: TrustedProxies_def Let_def alloc_def)
  have once: "trustedProxyOnce (snd (TrustedProxies env g))"
    by (simp add: tp once_after_load)
  have cid: "trustedProxyCIDRs (snd (TrustedProxies env g))
               = parseProxyCIDRs [''0.0.0.0/0'', ''::/0'']"
    using lp by (simp add: tp)
  have a: "elems (store (snd (TrustedProxies env g))) (fst (TrustedProxies env g))
             = [''0.0.0.0/0'', ''::/0'']"
    by (simp add: tp elems_alloc)
  have b: "fst (isTrustedProxyIP env (snd (TrustedProxies env g)) ip)"
    if "length ip = IPv4len \<or> length ip = IPv6len" for ip
    using once cid all_trusted_by_default [OF that]
    by (simp add: isTrustedProxyIP_def loadTrustedProxies_def Let_def)
  from a b show ?thesis by blast
qed

theorem permissive_default_when_nothing_parses_witness:
  "\<not> trustedProxyOnce init_globals
   \<and> (splitProxyList ''not-an-ip, also-bad'' = []
        \<or> parseProxyCIDRs (splitProxyList ''not-an-ip, also-bad'') = [])
   \<and> elems (store (snd (TrustedProxies ''not-an-ip, also-bad'' init_globals)))
            (fst (TrustedProxies ''not-an-ip, also-bad'' init_globals))
       = [''0.0.0.0/0'', ''::/0'']
   \<and> fst (isTrustedProxyIP ''not-an-ip, also-bad''
            (snd (TrustedProxies ''not-an-ip, also-bad'' init_globals))
            [0,0,0,0,0,0,0,0,0,0,0xff,0xff,203,0,113,7])"
proof -
  have o: "\<not> trustedProxyOnce init_globals"
    by (simp add: init_globals_def)
  have z: "splitProxyList ''not-an-ip, also-bad'' = []
        \<or> parseProxyCIDRs (splitProxyList ''not-an-ip, also-bad'') = []"
    by code_simp
  have l: "length [0,0,0,0,0,0,0,0,0,0,0xff,0xff,203,0,113,7::byte] = IPv6len"
    by (simp add: IPv6len_def)
  show ?thesis
    using o z l permissive_default_when_nothing_parses [OF o z] by blast
qed












lemma wf_init: "wf_globals init_globals"
  by (simp add: wf_globals_def init_globals_def)

lemma wf_load: "wf_globals g \<Longrightarrow> wf_globals (loadTrustedProxies env g)"
  by (simp add: wf_globals_def loadTrustedProxies_def alloc_def Let_def split: prod.splits)

lemma wf_TrustedProxies: "wf_globals g \<Longrightarrow> wf_globals (snd (TrustedProxies env g))"
  using wf_load [of g env]
  by (auto simp: wf_globals_def TrustedProxies_def alloc_def Let_def split: option.splits)

lemma TrustedProxies_loaded:
  assumes "trustedProxyOnce g"
  shows "elems (store (snd (TrustedProxies env g))) (fst (TrustedProxies env g))
           = elems (store g) (trustedProxyList g)"
proof -
  have ld: "loadTrustedProxies env g = g"
    using assms by (simp add: loadTrustedProxies_def)
  show ?thesis
  proof (cases "elems (store g) (trustedProxyList g) = []")
    case True
    then show ?thesis
      by (simp add: TrustedProxies_def ld elems_def)
  next
    case False
    then show ?thesis
      by (simp add: TrustedProxies_def ld Let_def alloc_def elems_alloc)
  qed
qed

text \<open>
  Claim C9. The slice \<open>TrustedProxies()\<close> returns is a copy: it is not the slice held
  in \<open>trustedProxyList\<close> and has the same elements. Whatever the caller writes to the
  returned array (\<open>ys\<close>), the elements of \<open>trustedProxyList\<close> stay the same, a later call
  of \<open>TrustedProxies()\<close> returns the same strings as before the mutation, and the trust
  check gives the same answer as before it.
\<close>

theorem TrustedProxies_returns_copy:
  assumes "wf_globals g"
    and "TrustedProxies env g = (Some a, g1)"
  shows "Some a \<noteq> trustedProxyList g1
       \<and> elems (store g1) (Some a) = elems (store g1) (trustedProxyList g1)
       \<and> elems (store (g1\<lparr>store := (store g1)[a := ys]\<rparr>))
               (trustedProxyList (g1\<lparr>store := (store g1)[a := ys]\<rparr>))
           = elems (store g1) (trustedProxyList g1)
       \<and> elems (store (snd (TrustedProxies env' (g1\<lparr>store := (store g1)[a := ys]\<rparr>))))
               (fst (TrustedProxies env' (g1\<lparr>store := (store g1)[a := ys]\<rparr>)))
           = elems (store g1) (trustedProxyList g1)
       \<and> fst (isTrustedProxyIP env' (g1\<lparr>store := (store g1)[a := ys]\<rparr>) ip)
           = fst (isTrustedProxyIP env' g1 ip)"
proof -
  let ?g0 = "loadTrustedProxies env g"
  let ?xs = "elems (store ?g0) (trustedProxyList ?g0)"
  from assms(2) have ne: "?xs \<noteq> []"
    by (auto simp: TrustedProxies_def Let_def split: if_splits)
  with assms(2) have a: "a = length (store ?g0)"
    and g1: "g1 = ?g0\<lparr>store := store ?g0 @ [?xs]\<rparr>"
    by (auto simp: TrustedProxies_def Let_def alloc_def)
  have wf: "wf_globals ?g0" using assms(1) by (rule wf_load)
  have once: "trustedProxyOnce g1" by (simp add: g1 once_after_load)
  let ?g2 = "g1\<lparr>store := (store g1)[a := ys]\<rparr>"
  have once2: "trustedProxyOnce ?g2" using once by simp
  have s2: "store ?g2 = store ?g0 @ [ys]" by (simp add: g1 a)
  have l1: "elems (store g1) (trustedProxyList g1) = ?xs"
    using wf by (auto simp: g1 wf_globals_def elems_def nth_append split: option.splits)
  have l2: "elems (store ?g2) (trustedProxyList ?g2) = ?xs"
    using wf unfolding s2
    by (auto simp: g1 wf_globals_def elems_def nth_append split: option.splits)
  have c1: "Some a \<noteq> trustedProxyList g1"
    using wf by (auto simp: g1 a wf_globals_def split: option.splits)
  have c2: "elems (store g1) (Some a) = ?xs"
    by (simp add: g1 a elems_def)
  have ld: "loadTrustedProxies env' ?g2 = ?g2"
    using once2 by (simp add: loadTrustedProxies_def)
  have ld1: "loadTrustedProxies env' g1 = g1"
    using once by (simp add: loadTrustedProxies_def)
  have c4: "elems (store (snd (TrustedProxies env' ?g2))) (fst (TrustedProxies env' ?g2)) = ?xs"
    using TrustedProxies_loaded [OF once2, of env'] l2 by (rule trans)
  have c5: "fst (isTrustedProxyIP env' ?g2 ip) = fst (isTrustedProxyIP env' g1 ip)"
    unfolding isTrustedProxyIP_def ld ld1 Let_def by simp
  from c1 c2 l1 l2 c4 c5 show ?thesis by simp
qed

theorem TrustedProxies_returns_copy_witness:
  "wf_globals init_globals
   \<and> TrustedProxies ''10.0.0.0/8'' init_globals
       = (Some 1, \<lparr>store = [[''10.0.0.0/8''], [''10.0.0.0/8'']], trustedProxyOnce = True,
                   trustedProxyList = Some 0,
                   trustedProxyCIDRs = [\<lparr>IP = [10, 0, 0, 0], Mask = [0xff, 0, 0, 0]\<rparr>]\<rparr>)
   \<and> elems (store (snd (TrustedProxies ''10.0.0.0/8''
               \<lparr>store = [[''10.0.0.0/8''], [''0.0.0.0/0'']], trustedProxyOnce = True,
                 trustedProxyList = Some 0,
                 trustedProxyCIDRs = [\<lparr>IP = [10, 0, 0, 0], Mask = [0xff, 0, 0, 0]\<rparr>]\<rparr>)))
            (fst (TrustedProxies ''10.0.0.0/8''
               \<lparr>store = [[''10.0.0.0/8''], [''0.0.0.0/0'']], trustedProxyOnce = True,
                 trustedProxyList = Some 0,
                 trustedProxyCIDRs = [\<lparr>IP = [10, 0, 0, 0], Mask = [0xff, 0, 0, 0]\<rparr>]\<rparr>))
       = [''10.0.0.0/8'']"
proof -
  have t: "TrustedProxies ''10.0.0.0/8'' init_globals
       = (Some 1, \<lparr>store = [[''10.0.0.0/8''], [''10.0.0.0/8'']], trustedProxyOnce = True,
                   trustedProxyList = Some 0,
                   trustedProxyCIDRs = [\<lparr>IP = [10, 0, 0, 0], Mask = [0xff, 0, 0, 0]\<rparr>]\<rparr>)"
    by code_simp
  show ?thesis
    using wf_init t TrustedProxies_returns_copy [OF wf_init t, of "[''0.0.0.0/0'']" "''10.0.0.0/8''"]
    by (simp add: elems_def)
qed

lemma RealClientIP_cached:
  "RealClientIP env P CI g c =
     (if cached_ip c \<noteq> [] then (cached_ip c, c, g)
      else (let (ip, g1) = RealClientIPFromRequest env P g (Request c) in
            if ip \<noteq> []
            then (ip, c\<lparr>Keys := (Keys c)(realClientIPKey \<mapsto> AnyString ip)\<rparr>, g1)
            else (CI c, c, g1)))"
  by (simp add: RealClientIP_def cached_ip_def Let_def)

lemma cached_ip_Some:
  "cached_ip c \<noteq> [] \<Longrightarrow> Keys c realClientIPKey = Some (AnyString (cached_ip c))"
  by (auto simp: cached_ip_def split: option.splits any.splits)

lemma cached_ip_eq:
  "Keys c realClientIPKey = Some (AnyString ip) \<Longrightarrow> cached_ip c = ip"
  by (simp add: cached_ip_def)

lemma RealClientIPFromRequest_again:
  assumes "RealClientIPFromRequest env P g req = (ip, g1)"
  shows "RealClientIPFromRequest env P g1 req = (ip, g1)"
proof (cases req)
  case None
  with assms show ?thesis by (simp add: RealClientIPFromRequest_def)
next
  case (Some r)
  show ?thesis
  proof (cases "parseRemoteIP (RemoteAddr r)")
    case None
    with assms Some show ?thesis by (simp add: RealClientIPFromRequest_def)
  next
    case (Some remoteIP)
    from assms \<open>req = Some r\<close> Some have g1: "g1 = loadTrustedProxies env g"
      by (auto simp: RealClientIPFromRequest_def isTrustedProxyIP_def Let_def split: if_splits)
    have "isTrustedProxyIP env g1 remoteIP = isTrustedProxyIP env g remoteIP"
      by (simp add: isTrustedProxyIP_def g1 loadTrustedProxies_idem)
    with assms \<open>req = Some r\<close> Some show ?thesis
      by (simp add: RealClientIPFromRequest_def)
  qed
qed

text \<open>
  Claim C6. A second call of \<open>RealClientIP\<close> on the context and state the first call left
  (same environment, classification and framework fallback) returns the same string, and
  changes nothing. A non-empty result of \<open>RealClientIPFromRequest\<close> is cached under the
  key \<open>real_client_ip\<close>; and once a non-empty value is cached, a later call returns it
  whatever the request (its headers and remote address) has become, and leaves the
  process state untouched: the request is not read.
\<close>

theorem RealClientIP_second_call:
  assumes "RealClientIP env P CI g c = (ip1, c1, g1)"
  shows "RealClientIP env P CI g1 c1 = (ip1, c1, g1)
       \<and> (fst (RealClientIPFromRequest env P g (Request c)) \<noteq> [] \<longrightarrow>
            ip1 \<noteq> [] \<and> Keys c1 realClientIPKey = Some (AnyString ip1))
       \<and> (ip1 \<noteq> [] \<and> Keys c1 realClientIPKey = Some (AnyString ip1) \<longrightarrow>
            RealClientIP env' P' CI' g' (c1\<lparr>Request := req'\<rparr>)
              = (ip1, c1\<lparr>Request := req'\<rparr>, g'))"
proof -
  have third: "RealClientIP env' P' CI' g' (c1\<lparr>Request := req'\<rparr>)
              = (ip1, c1\<lparr>Request := req'\<rparr>, g')"
    if "ip1 \<noteq> []" and "Keys c1 realClientIPKey = Some (AnyString ip1)"
  proof -
    have "cached_ip (c1\<lparr>Request := req'\<rparr>) = ip1"
      using that(2) by (simp add: cached_ip_def)
    with that(1) show ?thesis by (simp add: RealClientIP_cached)
  qed
  show ?thesis
  proof (cases "cached_ip c \<noteq> []")
    case True
    with assms have e: "ip1 = cached_ip c" "c1 = c" "g1 = g"
      by (auto simp: RealClientIP_cached)
    have k: "Keys c1 realClientIPKey = Some (AnyString ip1)"
      using True e cached_ip_Some by simp
    have "RealClientIP env P CI g1 c1 = (ip1, c1, g1)"
      using True e by (simp add: RealClientIP_cached)
    with True e k third show ?thesis by simp
  next
    case False
    obtain ip g2 where r: "RealClientIPFromRequest env P g (Request c) = (ip, g2)"
      by (cases "RealClientIPFromRequest env P g (Request c)")
    show ?thesis
    proof (cases "ip = []")
      case True
      with assms False r have e: "ip1 = CI c" "c1 = c" "g1 = g2"
        by (auto simp: RealClientIP_cached)
      have "RealClientIP env P CI g1 c1 = (ip1, c1, g1)"
        using False True e RealClientIPFromRequest_again [OF r]
        by (simp add: RealClientIP_cached)
      moreover have "\<not> (ip1 \<noteq> [] \<and> Keys c1 realClientIPKey = Some (AnyString ip1))"
        using False e cached_ip_eq [of c ip1] by auto
      ultimately show ?thesis using True r by auto
    next
      case ne: False
      with assms False r have e: "ip1 = ip"
        "c1 = c\<lparr>Keys := (Keys c)(realClientIPKey \<mapsto> AnyString ip)\<rparr>" "g1 = g2"
        by (auto simp: RealClientIP_cached)
      have k: "Keys c1 realClientIPKey = Some (AnyString ip1)"
        by (simp add: e)
      then have "cached_ip c1 = ip1" by (rule cached_ip_eq)
      then have "RealClientIP env P CI g1 c1 = (ip1, c1, g1)"
        using ne e by (simp add: RealClientIP_cached)
      with k ne e third show ?thesis by simp
    qed
  qed
qed

theorem RealClientIP_second_call_witness:
  "RealClientIP ''10.0.0.0/8'' IsPrivateIP_std (\<lambda>c. ''192.0.2.1'') init_globals
       \<lparr>Keys = Map.empty,
         Request = Some \<lparr>RemoteAddr = ''10.1.1.1:5000'',
                          Header_Get = (\<lambda>k. if k = ''X-Forwarded-For''
                                              then ''203.0.113.7, 10.0.0.5'' else [])\<rparr>\<rparr>
     = (''203.0.113.7'',
        \<lparr>Keys = [realClientIPKey \<mapsto> AnyString ''203.0.113.7''],
          Request = Some \<lparr>RemoteAddr = ''10.1.1.1:5000'',
                           Header_Get = (\<lambda>k. if k = ''X-Forwarded-For''
                                               then ''203.0.113.7, 10.0.0.5'' else [])\<rparr>\<rparr>,
        loadTrustedProxies ''10.0.0.0/8'' init_globals)
   \<and> RealClientIP ''10.0.0.0/8'' IsPrivateIP_std (\<lambda>c. ''192.0.2.1'')
         (loadTrustedProxies ''10.0.0.0/8'' init_globals)
         \<lparr>Keys = [realClientIPKey \<mapsto> AnyString ''203.0.113.7''],
           Request = Some \<lparr>RemoteAddr = ''10.1.1.1:5000'',
                            Header_Get = (\<lambda>k. ''198.51.100.9'')\<rparr>\<rparr>
     = (''203.0.113.7'',
        \<lparr>Keys = [realClientIPKey \<mapsto> AnyString ''203.0.113.7''],
          Request = Some \<lparr>RemoteAddr = ''10.1.1.1:5000'',
                           Header_Get = (\<lambda>k. ''198.51.100.9'')\<rparr>\<rparr>,
        loadTrustedProxies ''10.0.0.0/8'' init_globals)"
proof -
  let ?h = "\<lambda>k. if k = ''X-Forwarded-For'' then ''203.0.113.7, 10.0.0.5'' else []"
  let ?c = "\<lparr>Keys = Map.empty,
             Request = Some \<lparr>RemoteAddr = ''10.1.1.1:5000'', Header_Get = ?h\<rparr>\<rparr>"
  have r: "RealClientIPFromRequest ''10.0.0.0/8'' IsPrivateIP_std init_globals
             (Some \<lparr>RemoteAddr = ''10.1.1.1:5000'', Header_Get = ?h\<rparr>)
           = (''203.0.113.7'', loadTrustedProxies ''10.0.0.0/8'' init_globals)"
    by code_simp
  have f: "RealClientIP ''10.0.0.0/8'' IsPrivateIP_std (\<lambda>c. ''192.0.2.1'') init_globals ?c
     = (''203.0.113.7'',
        ?c\<lparr>Keys := [realClientIPKey \<mapsto> AnyString ''203.0.113.7'']\<rparr>,
        loadTrustedProxies ''10.0.0.0/8'' init_globals)"
    by (simp add: RealClientIP_def r)
  show ?thesis
    using f RealClientIP_second_call [OF f, of "''10.0.0.0/8''" IsPrivateIP_std "\<lambda>c. ''192.0.2.1''"
                 "loadTrustedProxies ''10.0.0.0/8'' init_globals"
                 "Some \<lparr>RemoteAddr = ''10.1.1.1:5000'', Header_Get = (\<lambda>k. ''198.51.100.9'')\<rparr>"]
    by simp
qed

subsection \<open>Networks and ranges\<close>

text \<open>
  For every network the loader builds, \<open>IPNet.Contains\<close> is membership in the network's
  range of numbers (\<open>prefix_net_Contains\<close>, \<open>trust_check_is_range_membership\<close>): an address
  inside the range of some configured network is trusted, and an address just beyond the
  ends of every range is not. A plain IPv4 or IPv6 literal without prefix length is
  widened to a network holding that one address (\<open>plain_v4_token_trusts_itself_only\<close>,
  \<open>plain_v6_token_trusts_itself_only\<close>).
\<close>

lemma ip_val_bound: "ip_val bs < 256 ^ length bs"
proof (induction bs)
  case Nil
  then show ?case by simp
next
  case (Cons b bs)
  let ?M = "256 ^ length bs :: nat"
  have "unat b < 2 ^ 8" using unsigned_less [of b, where 'a = nat] by simp
  then have le: "unat b + 1 \<le> 256" by simp
  have "unat b * ?M + ip_val bs < unat b * ?M + ?M" using Cons by simp
  also have "\<dots> = (unat b + 1) * ?M" by simp
  also have "\<dots> \<le> 256 * ?M" using le by (rule mult_le_mono1)
  finally show ?case by simp
qed

lemma ip_val_inj:
  "length xs = length ys \<Longrightarrow> ip_val xs = ip_val ys \<Longrightarrow> xs = ys"
proof (induction xs ys rule: list_induct2)
  case Nil
  then show ?case by simp
next
  case (Cons x xs y ys)
  let ?M = "256 ^ length xs :: nat"
  have bx: "ip_val xs < ?M" by (rule ip_val_bound)
  have byy: "ip_val ys < ?M" using ip_val_bound [of ys] Cons.hyps by simp
  from Cons.prems Cons.hyps have e: "unat x * ?M + ip_val xs = unat y * ?M + ip_val ys"
    by simp
  have "(unat x * ?M + ip_val xs) div ?M = unat x" using bx by simp
  moreover have "(unat y * ?M + ip_val ys) div ?M = unat y" using byy by simp
  ultimately have "unat x = unat y" using e by simp
  then have "x = y" by (simp add: word_unat_eq_iff)
  with e Cons.IH show ?case by simp
qed

lemma byte_and_ff: "(b :: byte) AND 0xff = b"
proof -
  have "(0xff :: byte) = - 1" by simp
  then show ?thesis by (simp only: and.right_neutral bit.conj_one_right)
qed

lemma mask_byte: "NOT (drop_bit n (0xff :: byte)) = NOT (mask (8 - n))"
proof -
  have e: "(0xff :: byte) = mask 8" by (simp add: mask_eq_exp_minus_1)
  have "drop_bit n (mask 8 :: byte) = mask (8 - n)"
    by (rule bit_eqI) (auto simp: bit_simps)
  then show ?thesis
    by (simp only: e)
qed

lemma and_not_mask_byte: "(b :: byte) AND NOT (mask k) = push_bit k (drop_bit k b)"
  by (auto intro!: bit_eqI simp: bit_simps)

lemma unat_push_drop: "unat (push_bit k (drop_bit k (b :: byte))) = (unat b div 2 ^ k) * 2 ^ k"
proof -
  have le: "(unat b div 2 ^ k) * 2 ^ k \<le> unat b" by simp
  have "unat b < 2 ^ 8" using unsigned_less [of b, where 'a = nat] by simp
  with le have lt: "(unat b div 2 ^ k) * 2 ^ k < 2 ^ 8" by linarith
  have "unat (push_bit k (drop_bit k b)) = take_bit 8 (push_bit k (drop_bit k (unat b)))"
    by (simp add: unsigned_push_bit_eq unat_drop_bit_eq)
  also have "\<dots> = take_bit 8 ((unat b div 2 ^ k) * 2 ^ k)"
    by (simp add: push_bit_eq_mult drop_bit_eq_div)
  also have "\<dots> = (unat b div 2 ^ k) * 2 ^ k"
    using lt by (simp add: take_bit_nat_eq_self)
  finally show ?thesis .
qed

lemma partial_byte:
  "unat (b AND NOT (drop_bit n (0xff :: byte))) = (unat b div 2 ^ (8 - n)) * 2 ^ (8 - n)"
  by (simp only: mask_byte and_not_mask_byte unat_push_drop)

lemma and_mask_length: "length (and_mask xs ms) = min (length xs) (length ms)"
  by (simp add: and_mask_def)

lemma and_mask_Cons: "and_mask (b # bs) (m # ms) = (b AND m) # and_mask bs ms"
  by (simp add: and_mask_def)

lemma CIDRMask_loop_length: "length (CIDRMask_loop l p) = l"
  by (induction l arbitrary: p) auto

lemma CIDRMask_loop_zero: "CIDRMask_loop l 0 = replicate l 0"
  by (induction l) auto

lemma ip_val_and_zero: "ip_val (and_mask xs (replicate (length xs) 0)) = 0"
  by (induction xs) (auto simp: and_mask_def)

lemma ip_val_replicate_zero: "ip_val (replicate l 0) = 0"
  by (induction l) auto

lemma Contains_loop_iff:
  "length nn = length a \<Longrightarrow> length m = length a \<Longrightarrow>
   Contains_loop nn m a \<longleftrightarrow> and_mask nn m = and_mask a m"
proof (induction nn m a rule: Contains_loop.induct)
  case (1 n ns m ms x xs)
  then show ?case by (auto simp: and_mask_def)
qed (auto simp: and_mask_def)

lemma ip_val_masked:
  "length x = l \<Longrightarrow> p \<le> 8 * l \<Longrightarrow>
   ip_val (and_mask x (CIDRMask_loop l p)) = (ip_val x div 2 ^ (8 * l - p)) * 2 ^ (8 * l - p)"
proof (induction l arbitrary: x p)
  case 0
  then show ?case by (simp add: and_mask_def)
next
  case (Suc l)
  then obtain b bs where x: "x = b # bs" and lb: "length bs = l"
    by (cases x) auto
  let ?M = "256 ^ l :: nat"
  have vb: "ip_val bs < ?M" using ip_val_bound [of bs] lb by simp
  show ?case
  proof (cases "p \<ge> 8")
    case True
    let ?k = "8 * l - (p - 8)"
    have k: "8 * Suc l - p = ?k" using True by simp
    have kl: "?k \<le> 8 * l" by simp
    define K :: nat where "K = 2 ^ ?k"
    define C :: nat where "C = 2 ^ (8 * l - ?k)"
    have K0: "K \<noteq> 0" by (simp add: K_def)
    have M: "?M = K * C"
    proof -
      have "(256 :: nat) ^ l = (2 ^ 8) ^ l" by simp
      also have "\<dots> = 2 ^ (8 * l)" by (simp only: power_mult)
      also have "\<dots> = 2 ^ (?k + (8 * l - ?k))" using kl by simp
      also have "\<dots> = K * C" by (simp only: power_add K_def C_def)
      finally show ?thesis .
    qed
    have ih: "ip_val (and_mask bs (CIDRMask_loop l (p - 8))) = (ip_val bs div K) * K"
      using Suc.IH [of bs "p - 8"] lb Suc.prems True by (simp add: K_def)
    have "ip_val (and_mask x (CIDRMask_loop (Suc l) p))
            = unat b * ?M + (ip_val bs div K) * K"
      using True ih lb
      by (simp add: x and_mask_Cons and_mask_length byte_and_ff CIDRMask_loop_length)
    also have "\<dots> = (unat b * C + ip_val bs div K) * K"
      by (simp only: M) (simp add: algebra_simps)
    also have "unat b * C + ip_val bs div K = (K * (unat b * C) + ip_val bs) div K"
      using K0 by simp
    also have "K * (unat b * C) = unat b * ?M"
      by (simp only: M) (simp add: algebra_simps)
    finally have "ip_val (and_mask x (CIDRMask_loop (Suc l) p))
            = ((unat b * ?M + ip_val bs) div K) * K" .
    moreover have "8 + 8 * l - p = 8 * l - (p - 8)" using True by simp
    ultimately show ?thesis
      using lb by (simp add: x K_def)
  next
    case False
    then have p: "p < 8" by simp
    define J :: nat where "J = 2 ^ (8 - p)"
    have k: "(2 :: nat) ^ (8 * Suc l - p) = J * ?M"
    proof -
      have "8 * Suc l - p = (8 - p) + 8 * l" using p by simp
      then have "(2 :: nat) ^ (8 * Suc l - p) = 2 ^ (8 - p) * 2 ^ (8 * l)"
        by (simp only: power_add)
      also have "(2 :: nat) ^ (8 * l) = (2 ^ 8) ^ l" by (simp only: power_mult)
      finally show ?thesis by (simp add: J_def)
    qed
    have vx: "ip_val x = unat b * ?M + ip_val bs" using lb by (simp add: x)
    have d1: "ip_val (and_mask x (CIDRMask_loop (Suc l) p)) = (unat b div J) * J * ?M"
      using p lb ip_val_and_zero [of bs]
      by (simp add: x and_mask_Cons and_mask_length CIDRMask_loop_zero partial_byte J_def)
    have d2: "(unat b * ?M + ip_val bs) div (J * ?M) = unat b div J"
    proof -
      have "(unat b * ?M + ip_val bs) div (?M * J)
              = ((unat b * ?M + ip_val bs) div ?M) div J"
        by (rule div_mult2_eq)
      also have "(unat b * ?M + ip_val bs) div ?M = unat b" using vb by simp
      finally show ?thesis by (simp add: mult.commute)
    qed
    show ?thesis
      unfolding vx k d1 d2 by simp
  qed
qed

lemma parseIPv4Fields_loop_length:
  "parseIPv4Fields_loop s i rest v pos dl flds = Some b \<Longrightarrow> length b = length flds"
proof (induction rest arbitrary: i v pos dl flds)
  case Nil
  then show ?case by (auto split: if_splits)
next
  case (Cons c cs)
  show ?case
  proof (cases "is_digit c")
    case True
    with Cons.prems show ?thesis
      by (auto simp: Let_def split: if_splits dest: Cons.IH)
  next
    case False
    with Cons.prems have "parseIPv4Fields_loop s (i + 1) cs 0 (pos + 1) 0 (flds[pos := of_int v]) = Some b"
      by (auto split: if_splits)
    then have "length b = length (flds[pos := of_int v])" by (rule Cons.IH)
    then show ?thesis by simp
  qed
qed

lemma parseIPv4Fields_length: "parseIPv4Fields s = Some b \<Longrightarrow> length b = 4"
  by (auto simp: parseIPv4Fields_def dest: parseIPv4Fields_loop_length)

lemma parseIPv6_loop_inv:
  "parseIPv6_loop s i ip ellipsis = Some (s', i', ip', ellipsis') \<Longrightarrow>
   loop_inv i ip ellipsis \<Longrightarrow> loop_inv i' ip' ellipsis'"
proof (induction "16 - i" arbitrary: s i ip ellipsis rule: less_induct)
  case less
  note prems = less.prems
  show ?case
  proof (cases "i < 16")
    case False
    with prems show ?thesis
      by (simp add: parseIPv6_loop.simps [of s i ip ellipsis])
  next
    case True
    from prems(1) True obtain off acc where h: "hexgroup s 0 0 = Some (off, acc)"
      by (auto simp: parseIPv6_loop.simps [of s i ip ellipsis] split: option.splits)
    from prems(1) True h have off: "off \<noteq> 0"
      by (auto simp: parseIPv6_loop.simps [of s i ip ellipsis] split: if_splits)
    show ?thesis
    proof (cases "off < length s \<and> s ! off = CHR ''.''")
      case dot: True
      with prems(1) True h off obtain flds where
        f: "parseIPv4Fields s = Some flds" and
        r: "i + 4 \<le> 16" "s' = []" "i' = i + 4" "ip' = take i ip @ flds @ drop (i + 4) ip"
           "ellipsis' = ellipsis"
        by (auto simp: parseIPv6_loop.simps [of s i ip ellipsis]
            split: if_splits option.splits)
      from f have "length flds = 4" by (rule parseIPv4Fields_length)
      with r prems(2) show ?thesis
        by (auto simp: loop_inv_def split: option.splits)
    next
      case nodot: False
      define ip1 where "ip1 = ip[i := ucast (drop_bit 8 acc), i + 1 := ucast acc]"
      define s1 where "s1 = drop off s"
      have inv1: "loop_inv (i + 2) ip1 ellipsis"
        using prems(2) by (auto simp: loop_inv_def ip1_def split: option.splits)
      have inv2: "loop_inv (i + 2) ip1 (Some (i + 2))"
        using prems(2) by (auto simp: loop_inv_def ip1_def)
      from prems(1) True h off nodot
      consider (stop) "s1 = []" "s' = s1" "i' = i + 2" "ip' = ip1" "ellipsis' = ellipsis"
        | (ell_end) "s1 \<noteq> []" "hd s1 = CHR '':''" "length s1 \<noteq> 1" "hd (drop 1 s1) = CHR '':''"
             "ellipsis = None" "drop 1 (drop 1 s1) = []"
             "s' = []" "i' = i + 2" "ip' = ip1" "ellipsis' = Some (i + 2)"
        | (ell_more) "s1 \<noteq> []" "hd s1 = CHR '':''" "length s1 \<noteq> 1" "hd (drop 1 s1) = CHR '':''"
             "ellipsis = None" "drop 1 (drop 1 s1) \<noteq> []"
             "parseIPv6_loop (drop 1 (drop 1 s1)) (i + 2) ip1 (Some (i + 2))
                = Some (s', i', ip', ellipsis')"
        | (more) "s1 \<noteq> []" "hd s1 = CHR '':''" "length s1 \<noteq> 1" "hd (drop 1 s1) \<noteq> CHR '':''"
             "parseIPv6_loop (drop 1 s1) (i + 2) ip1 ellipsis = Some (s', i', ip', ellipsis')"
        unfolding ip1_def s1_def
        by (simp add: parseIPv6_loop.simps [of s i ip ellipsis] Let_def split: if_splits)
          (auto split: if_splits)
      then show ?thesis
      proof cases
        case stop
        with inv1 show ?thesis by simp
      next
        case ell_end
        with inv2 show ?thesis by simp
      next
        case ell_more
        have "16 - (i + 2) < 16 - i" using True by simp
        from less.hyps [OF this ell_more(7) inv2] show ?thesis .
      next
        case more
        have "16 - (i + 2) < 16 - i" using True by simp
        from less.hyps [OF this more(5) inv1] show ?thesis .
      qed
    qed
  qed
qed

lemma expand_ellipsis_length:
  "expand_ellipsis (s, i, ip, ellipsis) = Some b \<Longrightarrow> loop_inv i ip ellipsis \<Longrightarrow> length b = 16"
  by (auto simp: expand_ellipsis_def loop_inv_def slice_def split: if_splits option.splits)

lemma parseIPv6_loop_start_length:
  assumes "parseIPv6_loop s0 0 (replicate 16 0) e = Some st"
    and "expand_ellipsis st = Some b"
    and "e = None \<or> e = Some 0"
  shows "length b = 16"
proof -
  obtain s' i' ip' e' where st: "st = (s', i', ip', e')" by (cases st)
  have "loop_inv 0 (replicate 16 0) e"
    using assms(3) by (auto simp: loop_inv_def)
  with assms(1) have "loop_inv i' ip' e'"
    unfolding st by (rule parseIPv6_loop_inv)
  with assms(2) show ?thesis unfolding st by (rule expand_ellipsis_length)
qed

lemma parseIPv6_length: "parseIPv6 s = Some a \<Longrightarrow> \<exists>b z. a = Addr6 b z \<and> length b = 16"
  by (auto simp: parseIPv6_def Let_def split: option.splits if_splits prod.splits
      intro: parseIPv6_loop_start_length)

lemma ParseAddr_scan_shape:
  "ParseAddr_scan s cs = Some a \<Longrightarrow>
   (\<exists>b. a = Addr4 b \<and> length b = 4) \<or> (\<exists>b z. a = Addr6 b z \<and> length b = 16)"
proof (induction cs)
  case Nil
  then show ?case by simp
next
  case (Cons c cs)
  then show ?case
    by (auto simp: parseIPv4_def split: if_splits
        dest: parseIPv4Fields_length parseIPv6_length)
qed

lemma ParseAddr_shape:
  "ParseAddr s = Some a \<Longrightarrow>
   (\<exists>b. a = Addr4 b \<and> length b = 4) \<or> (\<exists>b z. a = Addr6 b z \<and> length b = 16)"
  unfolding ParseAddr_def by (rule ParseAddr_scan_shape)

lemma ParseIP_length: "ParseIP s = Some ip \<Longrightarrow> length ip = 16"
  by (auto simp: ParseIP_def v4InV6Prefix_def split: option.splits if_splits
      dest!: ParseAddr_shape)

lemma CIDRMask_loop_drop:
  "drop k (CIDRMask_loop (k + l) p) = CIDRMask_loop l (p - 8 * k)"
proof (induction k arbitrary: p)
  case 0
  then show ?case by simp
next
  case (Suc k)
  show ?case
  proof (cases "p \<ge> 8")
    case True
    then show ?thesis using Suc [of "p - 8"] by simp
  next
    case False
    then show ?thesis using Suc [of 0] by simp
  qed
qed

lemma and_mask_drop: "drop k (and_mask xs ms) = and_mask (drop k xs) (drop k ms)"
  by (simp add: and_mask_def drop_map drop_zip)

lemma ParseCIDR_prefix_net:
  assumes "ParseCIDR s = Some n"
  shows "prefix_net n"
proof -
  from assms obtain i a v j where
    a: "ParseAddr (take i s) = Some a" and
    d: "dtoi (drop (i + 1) s) = (v, j, True)" and
    v: "0 \<le> v" "v \<le> int (BitLen a)" and
    n: "n = \<lparr>IP = IP_Mask (As16 a) (CIDRMask v (int (BitLen a))),
             Mask = CIDRMask v (int (BitLen a))\<rparr>"
    by (auto simp: ParseCIDR_def Let_def split: option.splits if_splits prod.splits)
  from ParseAddr_shape [OF a] show ?thesis
  proof (elim disjE exE conjE)
    fix b assume ab: "a = Addr4 b" and lb: "length b = 4"
    let ?m = "CIDRMask_loop 4 (nat v)"
    have m: "CIDRMask v (int (BitLen a)) = ?m"
      using v by (simp add: ab CIDRMask_def IPv4len_def IPv6len_def)
    have ip: "IP_Mask (As16 a) ?m = and_mask b ?m"
      using lb
      by (simp add: ab IP_Mask_def Let_def CIDRMask_loop_length IPv4len_def IPv6len_def
          v4InV6Prefix_def and_mask_def)
    have "networkNumberAndMask n = (and_mask b ?m, ?m)"
      using lb
      by (simp add: n m ip networkNumberAndMask_def To4_def and_mask_length
          CIDRMask_loop_length IPv4len_def IPv6len_def)
    moreover have "nat v \<le> 8 * 4" using v by (simp add: ab)
    ultimately show ?thesis
      unfolding prefix_net_def using lb by blast
  next
    fix b z assume ab: "a = Addr6 b z" and lb: "length b = 16"
    let ?m = "CIDRMask_loop 16 (nat v)"
    have m: "CIDRMask v (int (BitLen a)) = ?m"
      using v by (simp add: ab CIDRMask_def IPv4len_def IPv6len_def)
    have ip: "IP_Mask (As16 a) ?m = and_mask b ?m"
      using lb
      by (simp add: ab IP_Mask_def Let_def CIDRMask_loop_length IPv4len_def IPv6len_def
          and_mask_def)
    have l16: "length (and_mask b ?m) = 16"
      using lb by (simp add: and_mask_length CIDRMask_loop_length)
    show ?thesis
    proof (cases "To4 (and_mask b ?m)")
      case None
      then have "networkNumberAndMask n = (and_mask b ?m, ?m)"
        using l16
        by (simp add: n m ip networkNumberAndMask_def CIDRMask_loop_length
            IPv4len_def IPv6len_def)
      moreover have "nat v \<le> 8 * 16" using v by (simp add: ab)
      ultimately show ?thesis
        unfolding prefix_net_def using lb by blast
    next
      case (Some x)
      then have x: "x = drop 12 (and_mask b ?m)"
        using l16 by (auto simp: To4_def slice_def IPv4len_def IPv6len_def split: if_splits)
      have lx: "length x = 4" using x l16 by simp
      have dm: "drop 12 ?m = CIDRMask_loop 4 (nat v - 96)"
        using CIDRMask_loop_drop [of 12 4 "nat v"] by simp
      have "networkNumberAndMask n = (x, drop 12 ?m)"
        using Some lx
        by (simp add: n m ip networkNumberAndMask_def CIDRMask_loop_length
            IPv4len_def IPv6len_def)
      also have "x = and_mask (drop 12 b) (CIDRMask_loop 4 (nat v - 96))"
        by (simp add: x and_mask_drop dm)
      finally have "networkNumberAndMask n
          = (and_mask (drop 12 b) (CIDRMask_loop 4 (nat v - 96)), CIDRMask_loop 4 (nat v - 96))"
        by (simp add: dm)
      moreover have "nat v - 96 \<le> 8 * 4" using v by (simp add: ab)
      moreover have "length (drop 12 b) = 4" using lb by simp
      ultimately show ?thesis
        unfolding prefix_net_def by blast
    qed
  qed
qed

lemma pow256: "(256 :: nat) ^ l = 2 ^ (8 * l)"
proof -
  have "(256 :: nat) ^ l = (2 ^ 8) ^ l" by simp
  also have "\<dots> = 2 ^ (8 * l)" by (simp only: power_mult)
  finally show ?thesis .
qed

lemma pow256_split: "p \<le> 8 * l \<Longrightarrow> (256 :: nat) ^ l = 2 ^ (8 * l - p) * 2 ^ p"
proof -
  assume "p \<le> 8 * l"
  then have "8 * l = (8 * l - p) + p" by simp
  then have "(2 :: nat) ^ (8 * l) = 2 ^ (8 * l - p) * 2 ^ p"
    by (metis power_add)
  then show ?thesis by (simp only: pow256)
qed

lemma ip_val_ff: "ip_val (replicate l 0xff) + 1 = 256 ^ l"
  by (induction l) auto

lemma and_mask_ff: "length m = l \<Longrightarrow> and_mask (replicate l 0xff) m = m"
proof (induction l arbitrary: m)
  case 0
  then show ?case by (simp add: and_mask_def)
next
  case (Suc l)
  then obtain b bs where m: "m = b # bs" "length bs = l" by (cases m) auto
  have "(0xff :: byte) AND b = b" using byte_and_ff [of b] by (simp add: and.commute)
  with Suc.IH [of bs] m show ?case by (simp add: and_mask_Cons)
qed

lemma div_block:
  fixes a q K :: nat
  assumes "0 < K"
  shows "a div K = q \<longleftrightarrow> q * K \<le> a \<and> a < q * K + K"
proof
  assume "a div K = q"
  then have "q * K = a - a mod K" by (auto simp: minus_mod_eq_div_mult)
  moreover have "a mod K < K" using assms by simp
  moreover have "a mod K \<le> a" by simp
  ultimately show "q * K \<le> a \<and> a < q * K + K" by linarith
next
  assume "q * K \<le> a \<and> a < q * K + K"
  then show "a div K = q"
    by (intro div_nat_eqI) (simp_all add: mult.commute)
qed

lemma ip_val_CIDRMask:
  assumes "p \<le> 8 * l"
  shows "ip_val (CIDRMask_loop l p) + 2 ^ (8 * l - p) = 256 ^ l"
proof -
  define K :: nat where "K = 2 ^ (8 * l - p)"
  define C :: nat where "C = 2 ^ p"
  have K0: "0 < K" by (simp add: K_def)
  have C0: "0 < C" by (simp add: C_def)
  have M: "(256 :: nat) ^ l = K * C"
    using pow256_split [OF assms] by (simp add: K_def C_def)
  have v: "ip_val (replicate l 0xff) = K * C - 1"
    using ip_val_ff [of l] M by simp
  have e: "K * C = (C - 1) * K + K" using C0 by (cases C) simp_all
  have q: "(K * C - 1) div K = C - 1"
    unfolding div_block [OF K0] using e K0 by linarith
  have "ip_val (CIDRMask_loop l p) = ip_val (and_mask (replicate l 0xff) (CIDRMask_loop l p))"
    by (simp add: and_mask_ff CIDRMask_loop_length)
  also have "\<dots> = (ip_val (replicate l 0xff) div K) * K"
    unfolding K_def by (rule ip_val_masked) (use assms in simp_all)
  also have "\<dots> = (C - 1) * K" by (simp only: v q)
  finally have "ip_val (CIDRMask_loop l p) + K = (C - 1) * K + K" by simp
  also have "\<dots> = K * C" using e by simp
  finally show ?thesis by (simp add: M K_def)
qed

lemma and_mask_idem: "and_mask (and_mask xs ms) ms = and_mask xs ms"
proof (induction xs arbitrary: ms)
  case Nil
  then show ?case by (simp add: and_mask_def)
next
  case (Cons x xs)
  then show ?case
    by (cases ms) (simp_all add: and_mask_def and.assoc)
qed

lemma prefix_net_Contains:
  assumes "prefix_net n"
  shows "Contains n ip = in_net n ip"
proof -
  from assms obtain l base p where
    lb: "length base = l" and p: "p \<le> 8 * l" and
    nm: "networkNumberAndMask n = (and_mask base (CIDRMask_loop l p), CIDRMask_loop l p)"
    unfolding prefix_net_def by blast
  let ?m = "CIDRMask_loop l p"
  let ?nn = "and_mask base ?m"
  let ?a = "addr_of ip"
  define K :: nat where "K = 2 ^ (8 * l - p)"
  have K0: "0 < K" by (simp add: K_def)
  have lnn: "length ?nn = l" using lb by (simp add: and_mask_length CIDRMask_loop_length)
  have vnn: "ip_val ?nn = (ip_val base div K) * K"
    unfolding K_def using lb p by (rule ip_val_masked)
  have last: "net_last n + 1 = ip_val ?nn + K"
  proof -
    have "ip_val ?m + K = 256 ^ l" unfolding K_def using p by (rule ip_val_CIDRMask)
    then have "256 ^ l - 1 - ip_val ?m = K - 1" by simp
    then show ?thesis using K0 by (simp add: net_last_def nm lnn)
  qed
  show ?thesis
  proof (cases "length ?a = l")
    case False
    then show ?thesis
      by (simp add: Contains_def nm in_net_def lnn addr_of_def)
  next
    case True
    have "Contains n ip = Contains_loop ?nn ?m ?a"
      using True by (simp add: Contains_def nm lnn addr_of_def)
    also have "\<dots> \<longleftrightarrow> and_mask ?nn ?m = and_mask ?a ?m"
      using True lnn by (intro Contains_loop_iff) (simp_all add: CIDRMask_loop_length)
    also have "\<dots> \<longleftrightarrow> ?nn = and_mask ?a ?m"
      by (simp only: and_mask_idem)
    also have "\<dots> \<longleftrightarrow> ip_val ?nn = ip_val (and_mask ?a ?m)"
      using True lnn
      by (auto intro!: ip_val_inj simp: and_mask_length CIDRMask_loop_length)
    also have "ip_val (and_mask ?a ?m) = (ip_val ?a div K) * K"
      unfolding K_def using True p by (rule ip_val_masked)
    also have "ip_val ?nn = (ip_val ?a div K) * K \<longleftrightarrow> ip_val ?a div K = ip_val base div K"
      using K0 by (auto simp: vnn)
    also have "\<dots> \<longleftrightarrow> ip_val ?nn \<le> ip_val ?a \<and> ip_val ?a < ip_val ?nn + K"
      using div_block [OF K0, of "ip_val ?a" "ip_val base div K"] by (simp add: vnn)
    also have "\<dots> \<longleftrightarrow> in_net n ip"
      using True last by (auto simp: in_net_def net_first_def nm lnn)
    finally show ?thesis .
  qed
qed

lemma parseProxyCIDRs_loop_prefix_nets:
  "\<forall>n \<in> set cidrs. prefix_net n \<Longrightarrow>
   \<forall>n \<in> set (parseProxyCIDRs_loop list cidrs). prefix_net n"
proof (induction list arbitrary: cidrs)
  case Nil
  then show ?case by simp
next
  case (Cons proxy list)
  have step: "\<forall>n \<in> set (parseProxyCIDRs_loop list (cidrs @ [c])). prefix_net n"
    if "ParseCIDR s = Some c" for s c
    using Cons.prems ParseCIDR_prefix_net [OF that] by (intro Cons.IH) simp
  show ?case
    using Cons.IH [OF Cons.prems] step
    by (simp add: Let_def split: option.split)
qed

lemma parseProxyCIDRs_prefix_nets:
  "n \<in> set (parseProxyCIDRs list) \<Longrightarrow> prefix_net n"
  using parseProxyCIDRs_loop_prefix_nets [of "[]" list] by (simp add: parseProxyCIDRs_def)

lemma isTrustedProxyIP_loop_iff:
  "isTrustedProxyIP_loop cidrs ip \<longleftrightarrow> (\<exists>n \<in> set cidrs. Contains n ip)"
  by (induction cidrs) auto

lemma trust_check_is_range_membership:
  "isTrustedProxyIP_loop (parseProxyCIDRs list) ip
     \<longleftrightarrow> (\<exists>n \<in> set (parseProxyCIDRs list). in_net n ip)"
  using parseProxyCIDRs_prefix_nets [of _ list]
  by (auto simp: isTrustedProxyIP_loop_iff prefix_net_Contains)

lemma beyond_range_not_in_net:
  "ip_val (addr_of ip) = net_last n + 1 \<or> ip_val (addr_of ip) + 1 = net_first n
   \<Longrightarrow> \<not> in_net n ip"
  by (auto simp: in_net_def)

lemma IndexByte_append:
  "c \<notin> set xs \<Longrightarrow> IndexByte (xs @ c # ys) c = Some (length xs)"
  by (induction xs) auto

lemma dtoi_32: "dtoi ''32'' = (32, 2, True)"
  by code_simp

lemma dtoi_128: "dtoi ''128'' = (128, 3, True)"
  by code_simp

lemma CIDRMask_32: "CIDRMask 32 32 = [0xff, 0xff, 0xff, 0xff]"
  by code_simp

lemma CIDRMask_128: "CIDRMask 128 128 = replicate 16 0xff"
  by code_simp

lemma and_mask_all_ones: "and_mask b (replicate (length b) 0xff) = b"
  by (induction b) (simp_all add: and_mask_def byte_and_ff)

lemma plain_v4_token:
  assumes "CHR ''/'' \<notin> set t" and "ParseAddr t = Some (Addr4 b)"
  shows "parseProxyCIDRs [t] = [\<lparr>IP = b, Mask = [0xff, 0xff, 0xff, 0xff]\<rparr>]"
proof -
  from ParseAddr_shape [OF assms(2)] have lb: "length b = 4" by simp
  have ip: "ParseIP t = Some (v4InV6Prefix @ b)"
    using assms(2) by (simp add: ParseIP_def)
  have t4: "To4 (v4InV6Prefix @ b) \<noteq> None"
    using lb by (simp add: To4_def v4InV6Prefix_def IPv4len_def IPv6len_def)
  have ix: "IndexByte (t @ ''/32'') (CHR ''/'') = Some (length t)"
    using IndexByte_append [OF assms(1), of "''32''"] by simp
  have "and_mask b [0xff, 0xff, 0xff, 0xff] = b"
    using and_mask_all_ones [of b] lb by (simp add: numeral_eq_Suc)
  then have m: "IP_Mask (v4InV6Prefix @ b) [0xff, 0xff, 0xff, 0xff] = b"
    using lb by (simp add: IP_Mask_def Let_def IPv4len_def IPv6len_def v4InV6Prefix_def
        and_mask_def)
  have "ParseCIDR (t @ ''/32'') = Some \<lparr>IP = b, Mask = [0xff, 0xff, 0xff, 0xff]\<rparr>"
    using assms(2) m
    by (simp add: ParseCIDR_def ix dtoi_32 CIDRMask_32 Let_def)
  then show ?thesis
    using assms(1) ip t4
    by (simp add: parseProxyCIDRs_def Contains_byte_def Let_def)
qed

lemma plain_v6_token:
  assumes "CHR ''/'' \<notin> set t" and "ParseAddr t = Some (Addr6 b [])" and "To4 b = None"
  shows "parseProxyCIDRs [t] = [\<lparr>IP = b, Mask = replicate 16 0xff\<rparr>]"
proof -
  from ParseAddr_shape [OF assms(2)] have lb: "length b = 16" by simp
  have ip: "ParseIP t = Some b"
    using assms(2) by (simp add: ParseIP_def)
  have ix: "IndexByte (t @ ''/128'') (CHR ''/'') = Some (length t)"
    using IndexByte_append [OF assms(1), of "''128''"] by simp
  have "and_mask b (replicate 16 0xff) = b"
    using and_mask_all_ones [of b] lb by simp
  then have m: "IP_Mask b (replicate 16 0xff) = b"
    using lb by (simp add: IP_Mask_def Let_def IPv4len_def IPv6len_def and_mask_def)
  have "ParseCIDR (t @ ''/128'') = Some \<lparr>IP = b, Mask = replicate 16 0xff\<rparr>"
    using assms(2) m
    by (simp add: ParseCIDR_def ix dtoi_128 CIDRMask_128 Let_def)
  then show ?thesis
    using assms(1) assms(3) ip
    by (simp add: parseProxyCIDRs_def Contains_byte_def Let_def)
qed

lemma Contains_host_net:
  assumes "length b = 4 \<or> (length b = 16 \<and> To4 b = None)"
  shows "Contains \<lparr>IP = b, Mask = replicate (length b) 0xff\<rparr> ip \<longleftrightarrow> addr_of ip = b"
proof -
  let ?n = "\<lparr>IP = b, Mask = replicate (length b) 0xff\<rparr>"
  have nm: "networkNumberAndMask ?n = (b, replicate (length b) 0xff)"
    using assms
    by (auto simp: networkNumberAndMask_def To4_def IPv4len_def IPv6len_def)
  show ?thesis
  proof (cases "length (addr_of ip) = length b")
    case False
    then show ?thesis by (auto simp: Contains_def nm addr_of_def)
  next
    case True
    have "Contains ?n ip = Contains_loop b (replicate (length b) 0xff) (addr_of ip)"
      using True by (simp add: Contains_def nm addr_of_def)
    also have "\<dots> \<longleftrightarrow> and_mask b (replicate (length b) 0xff)
                      = and_mask (addr_of ip) (replicate (length b) 0xff)"
      using True by (intro Contains_loop_iff) simp_all
    also have "\<dots> \<longleftrightarrow> b = addr_of ip"
      using and_mask_all_ones [of b] and_mask_all_ones [of "addr_of ip"] True by simp
    finally show ?thesis by auto
  qed
qed

lemma plain_v4_token_trusts_itself_only:
  assumes "CHR ''/'' \<notin> set t" and "ParseAddr t = Some (Addr4 b)"
  shows "isTrustedProxyIP_loop (parseProxyCIDRs [t]) ip \<longleftrightarrow> addr_of ip = b"
proof -
  from ParseAddr_shape [OF assms(2)] have lb: "length b = 4" by simp
  have "replicate (length b) (0xff :: byte) = [0xff, 0xff, 0xff, 0xff]"
    using lb by (simp add: numeral_eq_Suc)
  then show ?thesis
    using Contains_host_net [of b ip] lb
    by (simp add: plain_v4_token [OF assms])
qed

lemma plain_v6_token_trusts_itself_only:
  assumes "CHR ''/'' \<notin> set t" and "ParseAddr t = Some (Addr6 b [])" and "To4 b = None"
  shows "isTrustedProxyIP_loop (parseProxyCIDRs [t]) ip \<longleftrightarrow> addr_of ip = b"
proof -
  from ParseAddr_shape [OF assms(2)] have lb: "length b = 16" by simp
  show ?thesis
    using Contains_host_net [of b ip] lb assms(3)
    by (simp add: plain_v6_token [OF assms])
qed

subsection \<open>Single addresses in the configuration\<close>

text \<open>
  Claim C8 says that a token without prefix length is taken as a single IP widened to
  /32 (IPv4) or /128 (IPv6), and that every address inside the resulting range is
  trusted. For tokens with a prefix length and for plain IPv4 and IPv6 literals this is
  what the lemmas above show. The loader at the token \<open>::ffff:1.2.3.4\<close>, an IPv4 address
  in IPv6 notation: the token parses as an IP that \<open>To4\<close> accepts, so \<open>/32\<close> is
  appended to its text, and \<open>ParseCIDR\<close> reads \<open>::ffff:1.2.3.4/32\<close> as the IPv6 network
  \<open>::/32\<close>. The address 1.2.3.4 that the token names is then not trusted (a request from
  it has its forwarded headers ignored, where the token \<open>1.2.3.4\<close> has them honoured),
  while the IPv6 address \<open>::1\<close> is trusted.
\<close>

theorem v4_mapped_token_misses_its_own_address:
  "ParseIP ''::ffff:1.2.3.4'' = Some [0,0,0,0,0,0,0,0,0,0,0xff,0xff,1,2,3,4]
   \<and> To4 [0,0,0,0,0,0,0,0,0,0,0xff,0xff,1,2,3,4] = Some [1,2,3,4]
   \<and> ParseIP ''1.2.3.4'' = Some [0,0,0,0,0,0,0,0,0,0,0xff,0xff,1,2,3,4]
   \<and> parseProxyCIDRs [''::ffff:1.2.3.4'']
       = [\<lparr>IP = [0,0,0,0,0,0,0,0,0,0,0,0,0,0,0,0],
            Mask = [0xff,0xff,0xff,0xff,0,0,0,0,0,0,0,0,0,0,0,0]\<rparr>]
   \<and> \<not> fst (isTrustedProxyIP ''::ffff:1.2.3.4'' init_globals
                [0,0,0,0,0,0,0,0,0,0,0xff,0xff,1,2,3,4])
   \<and> fst (isTrustedProxyIP ''::ffff:1.2.3.4'' init_globals
            [0,0,0,0,0,0,0,0,0,0,0,0,0,0,0,1])
   \<and> fst (RealClientIPFromRequest ''::ffff:1.2.3.4'' IsPrivateIP_std init_globals
            (Some \<lparr>RemoteAddr = ''1.2.3.4:80'', Header_Get = (\<lambda>k. ''203.0.113.7'')\<rparr>))
       = ''1.2.3.4''
   \<and> fst (RealClientIPFromRequest ''1.2.3.4'' IsPrivateIP_std init_globals
            (Some \<lparr>RemoteAddr = ''1.2.3.4:80'', Header_Get = (\<lambda>k. ''203.0.113.7'')\<rparr>))
       = ''203.0.113.7''"
  by code_simp

end
